theory Spec2Isabelle
  imports Complex_Main
begin

section \<open>Data model\<close>

text \<open>
  The dict that extraction produces and \<open>save_business\<close> consumes. Its keys are
  \<open>name\<close>, \<open>phone\<close>, \<open>address\<close>, \<open>rating\<close>, \<open>gbp_url\<close>, \<open>has_website\<close> and
  \<open>website_url\<close>; a value that Python holds as \<open>None\<close> is \<open>None\<close> here.
\<close>

text \<open>
  A Python float, as \<open>float(s)\<close> produces it. \<open>Nearest q\<close> is the double that the
  decimal literal of exact value \<open>q\<close> is rounded to (the nearest one; an infinity
  when \<open>q\<close> lies beyond the doubles): the literal's exact value is kept and the
  rounding is not computed, so two values \<open>Nearest q\<close> and \<open>Nearest q'\<close> with
  \<open>q \<noteq> q'\<close> may stand for the same double. Rounding to nearest is monotone and
  exact on the integers of small magnitude: \<open>Nearest q\<close> with \<open>0 \<le> q\<close> is a
  double that is not negative, and \<open>Nearest 10\<close> and \<open>Nearest (- 3)\<close> are the
  doubles 10.0 and -3.0. The other three are the results of the literals \<open>inf\<close>,
  \<open>-inf\<close> and \<open>nan\<close>.
\<close>

datatype pyfloat = Nearest rat | Infinity | Minus_infinity | Not_a_number

record business =
  name :: "string option"
  phone :: "string option"
  address :: "string option"
  rating :: "pyfloat option"
  gbp_url :: "string option"
  has_website :: bool
  website_url :: "string option"

text \<open>Python truthiness of an optional string: \<open>None\<close> and the empty string are falsy.\<close>

fun truthy :: "string option \<Rightarrow> bool" where
  "truthy None = False"
| "truthy (Some s) = (s \<noteq> [])"

text \<open>
  A row of the table \<open>businesses\<close>, with the columns the statements of
  \<open>save_business\<close> name. Timestamps are points of a discrete clock.
\<close>

type_synonym timestamp = nat

record row =
  col_id :: nat
  col_name :: "string option"
  col_phone :: "string option"
  col_address :: "string option"
  col_city :: string
  col_category :: string
  col_gbp_url :: "string option"
  col_has_website :: bool
  col_website_url :: "string option"
  col_google_rating :: "pyfloat option"
  col_last_scraped :: "timestamp option"

text \<open>
  The connection: the rows as of the last commit, the rows as the open transaction sees
  them, and the id sequence. The INSERT of \<open>save_business\<close> leaves \<open>last_scraped\<close> to
  the column default, which the table definition (not part of the sources) decides:
  \<open>default_now\<close> says whether that default is the current time or NULL.
\<close>

text \<open>A row of the table \<open>scrape_runs\<close>.\<close>

record run_row =
  run_id :: nat
  run_status :: string
  run_found :: nat
  run_without_websites :: nat
  run_new :: nat
  run_error_log :: "string option"

record database =
  committed :: "row list"
  working :: "row list"
  next_id :: nat
  default_now :: bool
  scrape_runs :: "run_row list"

datatype db_call = Call_connect | Call_cursor | Call_select | Call_update | Call_insert
  | Call_commit | Call_rollback | Call_create_run | Call_update_run

datatype handle_state = Absent | Live | Released

datatype release_call = Close_page | Close_context | Close_browser | Close_db

datatype log_entry = LogInfo string | LogWarning string | LogError string

text \<open>
  How a call into the browser ends: it returns, or it raises (Playwright's
  \<open>TimeoutError\<close>, or another exception).
\<close>

datatype outcome = Done | TimedOut | Failed

text \<open>
  What the scraper does to the outside, in order: pauses, navigations (\<open>page.goto\<close>
  with its URL, the click on the next-page button) with the way each one ended, the
  steps of the per-listing loop (the re-resolved collection's length, the index read
  from it, an IndexError) and the closing of handles.
\<close>

datatype event =
    Ev_session_break
  | Ev_goto string outcome
  | Ev_polite_delay
  | Ev_click_next outcome
  | Ev_requery nat
  | Ev_access nat
  | Ev_index_error
  | Ev_click_listing
  | Ev_go_back
  | Ev_release release_call

datatype error = DbError db_call | ReleaseError release_call | BrowserError

text \<open>The scraper object: its counters, its four handles, its log and what it did.\<close>

record scraper =
  db :: database
  businesses_found :: nat
  businesses_without_websites :: nat
  new_businesses_added :: nat
  request_count :: nat
  page_h :: handle_state
  context_h :: handle_state
  browser_h :: handle_state
  db_conn_h :: handle_state
  logs :: "log_entry list"
  trace :: "event list"

section \<open>Text: classes, stripping, numbers\<close>

text \<open>
  Page text is modelled as its UTF-8 byte string. The classes \<open>\d\<close>, \<open>\s\<close> and
  \<open>\w\<close> are the ASCII members of Python's classes: on a text of ASCII characters
  (\<open>ascii\<close> below) they are Python's classes exactly. Python's \<open>\d\<close> also holds
  the decimal digits of other scripts, its \<open>\s\<close> the blanks beyond ASCII (U+0085,
  U+00A0, U+2000 and others) and its \<open>\w\<close> the letters beyond ASCII; none of their
  bytes is in a class here, so on a text with such characters a pattern can fail here
  where Python's matches: the model of the patterns is exact on ASCII texts.
\<close>

definition ascii :: "string \<Rightarrow> bool" where
  "ascii t = list_all (\<lambda>c. of_char c < (128::nat)) t"

definition is_digit :: "char \<Rightarrow> bool" where
  "is_digit c = (c \<in> set ''0123456789'')"

definition is_space :: "char \<Rightarrow> bool" where
  "is_space c = (c \<in> set [CHR '' '', CHR 0x09, CHR 0x0A, CHR 0x0B, CHR 0x0C, CHR 0x0D,
                            CHR 0x1C, CHR 0x1D, CHR 0x1E, CHR 0x1F])"

definition is_word :: "char \<Rightarrow> bool" where
  "is_word c = (is_digit c \<or> c \<in> set ''abcdefghijklmnopqrstuvwxyz''
                \<or> c \<in> set ''ABCDEFGHIJKLMNOPQRSTUVWXYZ'' \<or> c = CHR ''_'')"

definition dquote :: char where
  "dquote = CHR 0x22"

text \<open>\<open>str.strip()\<close>.\<close>

definition py_strip :: "string \<Rightarrow> string" where
  "py_strip s = rev (dropWhile is_space (rev (dropWhile is_space s)))"

text \<open>\<open>str.split()\<close> without argument: the maximal runs of non-blank characters.\<close>

fun py_words :: "string \<Rightarrow> string list" where
  "py_words [] = []"
| "py_words (c # cs) =
     (if is_space c then py_words cs
      else (case py_words cs of
              [] \<Rightarrow> [[c]]
            | w # ws \<Rightarrow>
                (case cs of
                   [] \<Rightarrow> [c] # w # ws
                 | d # _ \<Rightarrow> if is_space d then [c] # w # ws else (c # w) # ws)))"

definition digit_of :: "char \<Rightarrow> nat" where
  "digit_of c = of_char c - 48"

definition digits_val :: "string \<Rightarrow> nat" where
  "digits_val ds = foldl (\<lambda>n c. 10 * n + digit_of c) 0 ds"

text \<open>The lower-case form of an ASCII letter.\<close>

definition lower :: "char \<Rightarrow> char" where
  "lower c = (if c \<in> set ''ABCDEFGHIJKLMNOPQRSTUVWXYZ'' then char_of (of_char c + (32::nat)) else c)"

text \<open>
  \<open>float(s)\<close> on an ASCII string, after the grammar of Python's floating-point
  literals for \<open>float\<close>: the blanks of C's \<open>isspace\<close> stripped from both ends, an
  optional sign, then \<open>inf\<close>, \<open>infinity\<close> or \<open>nan\<close> in any case, or a number:
  digits with an optional point and at least one digit before or after it, an optional
  exponent (\<open>e\<close> or \<open>E\<close>, an optional sign, digits), and single underscores allowed
  between two digits. \<open>None\<close> is the ValueError. (On a string with characters beyond
  ASCII, \<open>float\<close> first maps the other scripts' digits and blanks to ASCII; here
  such a string does not parse.)
\<close>

definition is_c_space :: "char \<Rightarrow> bool" where
  "is_c_space c = (c \<in> set [CHR '' '', CHR 0x09, CHR 0x0A, CHR 0x0B, CHR 0x0C, CHR 0x0D])"

definition c_strip :: "string \<Rightarrow> string" where
  "c_strip s = rev (dropWhile is_c_space (rev (dropWhile is_c_space s)))"

text \<open>
  A run of digits at the head of a string, an underscore allowed between two digits:
  the digits read and what follows the run.
\<close>

fun digit_run :: "string \<Rightarrow> string \<times> string" where
  "digit_run [] = ([], [])"
| "digit_run (c # cs) =
     (if \<not> is_digit c then ([], c # cs)
      else
        (case cs of
           [] \<Rightarrow> ([c], [])
         | x # r \<Rightarrow>
             if is_digit x then (case digit_run cs of (ds, rest) \<Rightarrow> (c # ds, rest))
             else if x = CHR ''_'' \<and> (case r of [] \<Rightarrow> False | d # _ \<Rightarrow> is_digit d)
             then (case digit_run r of (ds, rest) \<Rightarrow> (c # ds, rest))
             else ([c], cs)))"

text \<open>What follows the digits and the point: nothing, or an exponent to the end.\<close>

definition exponent_of :: "string \<Rightarrow> int option" where
  "exponent_of t =
     (case t of
        [] \<Rightarrow> Some 0
      | c # u \<Rightarrow>
          if c = CHR ''e'' \<or> c = CHR ''E'' then
            (let neg = (case u of [] \<Rightarrow> False | x # _ \<Rightarrow> x = CHR ''-'');
                 v = (case u of
                        [] \<Rightarrow> []
                      | x # w \<Rightarrow> if x = CHR ''-'' \<or> x = CHR ''+'' then w else u)
             in case digit_run v of
                  (ds, rest) \<Rightarrow>
                    if ds \<noteq> [] \<and> rest = []
                    then Some (if neg then - int (digits_val ds) else int (digits_val ds))
                    else None)
          else None)"

definition scale10 :: "rat \<Rightarrow> int \<Rightarrow> rat" where
  "scale10 q e = (if 0 \<le> e then q * 10 ^ nat e else q / 10 ^ nat (- e))"

definition unsigned_float :: "string \<Rightarrow> rat option" where
  "unsigned_float u =
     (case digit_run u of
        (ip, r1) \<Rightarrow>
          (case (case r1 of
                   [] \<Rightarrow> ([], [])
                 | c # r \<Rightarrow> if c = CHR ''.'' then digit_run r else ([], r1)) of
             (fp, r2) \<Rightarrow>
               if ip = [] \<and> fp = [] then None
               else
                 (case exponent_of r2 of
                    None \<Rightarrow> None
                  | Some e \<Rightarrow>
                      Some (scale10 (of_nat (digits_val ip)
                                      + of_nat (digits_val fp) / 10 ^ length fp) e))))"

definition py_float :: "string \<Rightarrow> pyfloat option" where
  "py_float s =
     (let t = c_strip s;
          neg = (case t of [] \<Rightarrow> False | c # _ \<Rightarrow> c = CHR ''-'');
          u = (case t of
                 [] \<Rightarrow> []
               | c # r \<Rightarrow> if c = CHR ''-'' \<or> c = CHR ''+'' then r else t);
          w = map lower u
      in if w = ''inf'' \<or> w = ''infinity'' then Some (if neg then Minus_infinity else Infinity)
         else if w = ''nan'' then Some Not_a_number
         else map_option (\<lambda>q. Nearest (if neg then - q else q)) (unsigned_float u))"

text \<open>The decimal digits of a number, for the f-string \<open>Business {i+1}\<close>.\<close>

fun show_nat :: "nat \<Rightarrow> string" where
  "show_nat n =
     (if n < 10 then [char_of (48 + n)]
      else show_nat (n div 10) @ [char_of (48 + n mod 10)])"

declare show_nat.simps [simp del]

section \<open>Regular expressions\<close>

text \<open>
  The fragment of Python's \<open>re\<close> that the patterns of the scrapers use, with one
  capturing group. A match state is the character before the position (for \<open>\b\<close>),
  the text from the position on, and the text of group 1 when it has matched.
\<close>

datatype rx =
    Eps
  | Lit char
  | Cls "char \<Rightarrow> bool"
  | Seq rx rx
  | Alt rx rx
  | Opt rx
  | Star rx
  | Grp rx
  | Wordb

type_synonym mstate = "char option \<times> string \<times> string option"

fun word_before :: "char option \<Rightarrow> bool" where
  "word_before None = False"
| "word_before (Some c) = is_word c"

fun word_after :: "string \<Rightarrow> bool" where
  "word_after [] = False"
| "word_after (c # _) = is_word c"

text \<open>
  \<open>ends r st\<close>: the states in which a match of \<open>r\<close> that starts in \<open>st\<close> can end,
  in the order in which the backtracking matcher tries them (greedy quantifiers, the
  left alternative first). An iteration of \<open>*\<close> that consumes nothing is not repeated.
\<close>

function (sequential) ends :: "rx \<Rightarrow> mstate \<Rightarrow> mstate list" where
  "ends Eps st = [st]"
| "ends (Lit c) (p, [], g) = []"
| "ends (Lit c) (p, x # xs, g) = (if x = c then [(Some x, xs, g)] else [])"
| "ends (Cls P) (p, [], g) = []"
| "ends (Cls P) (p, x # xs, g) = (if P x then [(Some x, xs, g)] else [])"
| "ends (Seq a b) st = concat (map (ends b) (ends a st))"
| "ends (Alt a b) st = ends a st @ ends b st"
| "ends (Opt a) st = ends a st @ [st]"
| "ends (Star a) (p, xs, g) =
     concat (map (ends (Star a))
       (filter (\<lambda>st'. length (fst (snd st')) < length xs) (ends a (p, xs, g))))
     @ [(p, xs, g)]"
| "ends (Grp a) (p, xs, g) =
     map (\<lambda>st'. (fst st', fst (snd st'),
                  Some (take (length xs - length (fst (snd st'))) xs)))
       (ends a (p, xs, g))"
| "ends Wordb (p, xs, g) = (if word_before p \<noteq> word_after xs then [(p, xs, g)] else [])"
  by pat_completeness auto
termination
  by (relation "measures [\<lambda>(r, st). size r, \<lambda>(r, st). length (fst (snd st))]") auto

text \<open>\<open>re.search\<close>: the first result at the leftmost position that has one.\<close>

fun search :: "rx \<Rightarrow> char option \<Rightarrow> string \<Rightarrow> mstate option" where
  "search r p [] = (case ends r (p, [], None) of [] \<Rightarrow> None | m # _ \<Rightarrow> Some m)"
| "search r p (x # xs) =
     (case ends r (p, x # xs, None) of [] \<Rightarrow> search r (Some x) xs | m # _ \<Rightarrow> Some m)"

text \<open>The match object reduced to \<open>group(1)\<close>; the outer \<open>None\<close> is "no match".\<close>

definition re_search :: "rx \<Rightarrow> string \<Rightarrow> string option option" where
  "re_search r s = map_option (\<lambda>m. snd (snd m)) (search r None s)"

fun lit :: "string \<Rightarrow> rx" where
  "lit [] = Eps"
| "lit (c # cs) = Seq (Lit c) (lit cs)"

text \<open>
  A literal of ASCII letters under \<open>re.IGNORECASE\<close>: each letter matches itself in
  either case, and the three letters that have a further case-insensitive match beyond
  ASCII match it too (as its UTF-8 bytes): \<open>s\<close> the long s U+017F, \<open>k\<close> the
  Kelvin sign U+212A, \<open>i\<close> the dotted capital U+0130 and the dotless small U+0131.
\<close>

definition case_partners :: "char \<Rightarrow> string list" where
  "case_partners c =
     (if lower c = CHR ''s'' then [[CHR 0xC5, CHR 0xBF]]
      else if lower c = CHR ''k'' then [[CHR 0xE2, CHR 0x84, CHR 0xAA]]
      else if lower c = CHR ''i'' then [[CHR 0xC4, CHR 0xB0], [CHR 0xC4, CHR 0xB1]]
      else [])"


fun ilit :: "string \<Rightarrow> rx" where
  "ilit [] = Eps"
| "ilit (c # cs) =
     Seq (foldr (\<lambda>t r. Alt r (lit t)) (case_partners c) (Cls (\<lambda>x. lower x = lower c)))
         (ilit cs)"

definition Plus :: "rx \<Rightarrow> rx" where
  "Plus r = Seq r (Star r)"

fun Rep :: "nat \<Rightarrow> rx \<Rightarrow> rx" where
  "Rep 0 r = Eps"
| "Rep (Suc n) r = Seq r (Rep n r)"

fun seqs :: "rx list \<Rightarrow> rx" where
  "seqs [] = Eps"
| "seqs (r # rs) = Seq r (seqs rs)"

fun alts :: "rx list \<Rightarrow> rx" where
  "alts [] = Cls (\<lambda>_. False)"
| "alts [r] = r"
| "alts (r # rs) = Alt r (alts rs)"

definition digit :: rx where
  "digit = Cls is_digit"

definition spaces :: rx where
  "spaces = Star (Cls is_space)"

text \<open>\<open>[-.\s]\<close>\<close>

definition separator :: rx where
  "separator = Cls (\<lambda>c. c = CHR ''-'' \<or> c = CHR ''.'' \<or> is_space c)"

text \<open>\<open>[^c]\<close>\<close>

definition other_than :: "char \<Rightarrow> rx" where
  "other_than c = Cls (\<lambda>x. x \<noteq> c)"

section \<open>Field extraction from the detail view\<close>

text \<open>\<open>\(?\d{3}\)?[-.\s]?\d{3}[-.\s]?\d{4}\<close>\<close>

definition us_number :: rx where
  "us_number = seqs [Opt (Lit (CHR ''('')), Rep 3 digit, Opt (Lit (CHR '')'')), Opt separator,
                     Rep 3 digit, Opt separator, Rep 4 digit]"

text \<open>
  The four phone patterns of \<open>extract_business_details\<close>, in their order. In
  \<open>general_business_scraper.py\<close> the last two alternatives of the second pattern are
  two pictographs, written here as their UTF-8 bytes (U+1F4DE, and U+260E followed by
  U+FE0F). In \<open>google_scraper_v2.py\<close> the file holds other characters at that place
  (U+00F0 U+0178 U+201C U+017E, and U+00E2 U+02DC U+017D U+00EF U+00B8): the second
  pattern of that file is \<open>labelled_phone_v2\<close>, and the other three patterns are
  the same in both files.
\<close>

definition tel_link :: rx where
  "tel_link = seqs [lit (''href='' @ [dquote] @ ''tel:''), Grp (Plus (other_than dquote)),
                    Lit dquote]"

definition labelled_phone :: rx where
  "labelled_phone =
     seqs [alts [lit ''Phone:'', lit ''Call'', lit [CHR 0xF0, CHR 0x9F, CHR 0x93, CHR 0x9E],
                 lit [CHR 0xE2, CHR 0x98, CHR 0x8E, CHR 0xEF, CHR 0xB8, CHR 0x8F]],
           spaces, Opt (Lit (CHR '':'')), spaces, Grp us_number]"

definition labelled_phone_v2 :: rx where
  "labelled_phone_v2 =
     seqs [alts [lit ''Phone:'', lit ''Call'',
                 lit [CHR 0xC3, CHR 0xB0, CHR 0xC5, CHR 0xB8, CHR 0xE2, CHR 0x80, CHR 0x9C,
                      CHR 0xC5, CHR 0xBE],
                 lit [CHR 0xC3, CHR 0xA2, CHR 0xCB, CHR 0x9C, CHR 0xC5, CHR 0xBD, CHR 0xC3,
                      CHR 0xAF, CHR 0xC2, CHR 0xB8]],
           spaces, Opt (Lit (CHR '':'')), spaces, Grp us_number]"

definition markup_phone :: rx where
  "markup_phone = seqs [Lit (CHR ''>''), spaces, Grp us_number, spaces, Lit (CHR ''<'')]"

definition bare_phone :: rx where
  "bare_phone =
     seqs [Wordb, Grp (seqs [Rep 3 digit, Opt separator, Rep 3 digit, Opt separator, Rep 4 digit]), Wordb]"

definition phone_patterns :: "rx list" where
  "phone_patterns = [tel_link, labelled_phone, markup_phone, bare_phone]"

definition phone_patterns_v2 :: "rx list" where
  "phone_patterns_v2 = [tel_link, labelled_phone_v2, markup_phone, bare_phone]"

text \<open>\<open>re.sub(r'^tel:', '', phone)\<close>\<close>

definition strip_tel :: "string \<Rightarrow> string" where
  "strip_tel s = (if take 4 s = ''tel:'' then drop 4 s else s)"

text \<open>
  The loop over patterns: the first pattern that matches decides, and yields the text of
  its group. (The group is part of every match of the patterns below.)
\<close>

fun first_match :: "rx list \<Rightarrow> string \<Rightarrow> string option" where
  "first_match [] s = None"
| "first_match (r # rs) s =
     (case re_search r s of
        None \<Rightarrow> first_match rs s
      | Some g \<Rightarrow> Some (case g of None \<Rightarrow> [] | Some t \<Rightarrow> t))"

text \<open>The phone: \<open>match.group(1).strip()\<close>, then without a leading \<open>tel:\<close>.\<close>

definition extract_phone :: "string \<Rightarrow> string option" where
  "extract_phone page_content =
     map_option (\<lambda>t. strip_tel (py_strip t)) (first_match phone_patterns page_content)"

definition extract_phone_v2 :: "string \<Rightarrow> string option" where
  "extract_phone_v2 page_content =
     map_option (\<lambda>t. strip_tel (py_strip t)) (first_match phone_patterns_v2 page_content)"

text \<open>\<open>(?:St|Ave|Rd|Blvd|Dr|Way|Ln|Pkwy)\<close>\<close>

definition street_suffix :: rx where
  "street_suffix = alts [lit ''St'', lit ''Ave'', lit ''Rd'', lit ''Blvd'', lit ''Dr'', lit ''Way'',
                         lit ''Ln'', lit ''Pkwy'']"

definition span_address :: rx where
  "span_address =
     seqs [lit ''<span'', Star (other_than (CHR ''>'')), Lit (CHR ''>''),
           Grp (seqs [Plus (other_than (CHR ''<'')), street_suffix, Star (other_than (CHR ''<''))]),
           lit ''</span>'']"

definition numbered_address :: rx where
  "numbered_address =
     seqs [Lit (CHR ''>''),
           Grp (seqs [Plus digit, Plus (other_than (CHR ''<'')), street_suffix,
                      Star (other_than (CHR ''<''))]),
           Lit (CHR ''<'')]"

definition extract_address :: "string \<Rightarrow> string option" where
  "extract_address page_content =
     map_option py_strip (first_match [span_address, numbered_address] page_content)"

text \<open>
  \<open>(\d+\.?\d*)\s*(?:star|\<dots>)\<close> under \<open>re.IGNORECASE\<close>, for the character
  sequence that the file holds as second alternative.
\<close>

definition rating_pattern :: "rx \<Rightarrow> rx" where
  "rating_pattern glyph =
     seqs [Grp (seqs [Plus digit, Opt (Lit (CHR ''.'')), Star digit]), spaces,
           alts [ilit ''star'', glyph]]"

text \<open>
  In \<open>general_business_scraper.py\<close> the second alternative is the black star U+2605
  (which has no other case), as its UTF-8 bytes.
\<close>

definition rating_token :: rx where
  "rating_token = rating_pattern (lit [CHR 0xE2, CHR 0x98, CHR 0x85])"

text \<open>
  In \<open>google_scraper_v2.py\<close> the file holds the three characters U+00E2 U+02DC U+2026
  at that place (UTF-8 bytes C3 A2, CB 9C, E2 80 A6). Under \<open>re.IGNORECASE\<close> the first
  of them also matches its capital U+00C2 (bytes C3 82); the other two have no other
  case.
\<close>

definition rating_token_v2 :: rx where
  "rating_token_v2 =
     rating_pattern
       (seqs [Alt (lit [CHR 0xC3, CHR 0xA2]) (lit [CHR 0xC3, CHR 0x82]),
              lit [CHR 0xCB, CHR 0x9C, CHR 0xE2, CHR 0x80, CHR 0xA6]])"

text \<open>
  The rating: \<open>float\<close> of group 1 when the pattern matches, \<open>None\<close> when it does not
  or when \<open>float\<close> raises.
\<close>

definition rating_by :: "rx \<Rightarrow> string \<Rightarrow> pyfloat option" where
  "rating_by pattern page_content =
     (case re_search pattern page_content of
        None \<Rightarrow> None
      | Some g \<Rightarrow> py_float (case g of None \<Rightarrow> [] | Some t \<Rightarrow> t))"

definition extract_rating :: "string \<Rightarrow> pyfloat option" where
  "extract_rating page_content = rating_by rating_token page_content"

definition extract_rating_v2 :: "string \<Rightarrow> pyfloat option" where
  "extract_rating_v2 page_content = rating_by rating_token_v2 page_content"

section \<open>The upsert: \<open>save_business\<close>\<close>

text \<open>\<open>str.split(sep)\<close> for a one-character separator: never the empty list.\<close>

fun py_split :: "char \<Rightarrow> string \<Rightarrow> string list" where
  "py_split sep [] = [[]]"
| "py_split sep (c # cs) =
     (if c = sep then [] # py_split sep cs
      else (case py_split sep cs of
              [] \<Rightarrow> [[c]]
            | w # ws \<Rightarrow> (c # w) # ws))"

text \<open>\<open>location.split(',')[0]\<close>; the index is in range since the split is never empty.\<close>

definition city_of :: "string \<Rightarrow> string" where
  "city_of location = (case py_split (CHR '','') location of [] \<Rightarrow> [] | w # _ \<Rightarrow> w)"

text \<open>SQL equality of a nullable column with a parameter: NULL equals nothing.\<close>

fun sql_eq :: "string option \<Rightarrow> string option \<Rightarrow> bool" where
  "sql_eq (Some x) (Some y) = (x = y)"
| "sql_eq _ _ = False"

text \<open>
  The WHERE clause that the SELECT and the UPDATE of one call share: by \<open>gbp_url\<close>
  when the record has a truthy one, by name and city otherwise.
\<close>

definition identity_match :: "business \<Rightarrow> string \<Rightarrow> row \<Rightarrow> bool" where
  "identity_match b location r =
     (if truthy (gbp_url b) then sql_eq (col_gbp_url r) (gbp_url b)
      else sql_eq (col_name r) (name b) \<and> col_city r = city_of location)"

definition select_existing :: "business \<Rightarrow> string \<Rightarrow> row list \<Rightarrow> row option" where
  "select_existing b location rows = find (identity_match b location) rows"

definition update_row :: "timestamp \<Rightarrow> business \<Rightarrow> row \<Rightarrow> row" where
  "update_row now b r =
     (if truthy (gbp_url b)
      then r\<lparr>col_name := name b, col_phone := phone b, col_address := address b,
             col_has_website := has_website b, col_website_url := website_url b,
             col_google_rating := rating b, col_last_scraped := Some now\<rparr>
      else r\<lparr>col_phone := phone b, col_address := address b,
             col_has_website := has_website b, col_website_url := website_url b,
             col_google_rating := rating b, col_last_scraped := Some now\<rparr>)"

definition update_existing :: "timestamp \<Rightarrow> business \<Rightarrow> string \<Rightarrow> row list \<Rightarrow> row list" where
  "update_existing now b location rows =
     map (\<lambda>r. if identity_match b location r then update_row now b r else r) rows"

definition new_row :: "database \<Rightarrow> timestamp \<Rightarrow> business \<Rightarrow> string \<Rightarrow> string \<Rightarrow> row" where
  "new_row d now b location category =
     \<lparr>col_id = next_id d, col_name = name b, col_phone = phone b, col_address = address b,
      col_city = city_of location, col_category = category, col_gbp_url = gbp_url b,
      col_has_website = has_website b, col_website_url = website_url b,
      col_google_rating = rating b,
      col_last_scraped = (if default_now d then Some now else None)\<rparr>"

definition insert_new :: "timestamp \<Rightarrow> business \<Rightarrow> string \<Rightarrow> string \<Rightarrow> database \<Rightarrow> database" where
  "insert_new now b location category d =
     d\<lparr>working := working d @ [new_row d now b location category],
       next_id := Suc (next_id d)\<rparr>"

definition commit :: "database \<Rightarrow> database" where
  "commit d = d\<lparr>committed := working d\<rparr>"

definition rollback :: "database \<Rightarrow> database" where
  "rollback d = d\<lparr>working := committed d\<rparr>"

text \<open>
  Every call on the connection may raise; \<open>fs\<close> lists the calls that do in this
  invocation (each kind of call is made at most once per invocation).
\<close>

definition raises :: "db_call list \<Rightarrow> db_call \<Rightarrow> bool" where
  "raises fs c = (c \<in> set fs)"

text \<open>
  The body of the \<open>try\<close>: \<open>Inl\<close> carries the call that raised and the object as it
  was then (the counter of new businesses is bumped before the commit).
\<close>

definition finish_upsert :: "db_call list \<Rightarrow> business \<Rightarrow> scraper \<Rightarrow> (db_call \<times> scraper) + scraper" where
  "finish_upsert fs b s =
     (if raises fs Call_commit then Inl (Call_commit, s)
      else
        (let s1 = s\<lparr>db := commit (db s)\<rparr>
         in Inr (if \<not> has_website b
                 then s1\<lparr>businesses_without_websites := Suc (businesses_without_websites s1)\<rparr>
                 else s1)))"

definition upsert_body ::
    "db_call list \<Rightarrow> timestamp \<Rightarrow> business \<Rightarrow> string \<Rightarrow> string \<Rightarrow> scraper
      \<Rightarrow> (db_call \<times> scraper) + scraper" where
  "upsert_body fs now b location category s =
     (if raises fs Call_cursor then Inl (Call_cursor, s)
      else if raises fs Call_select then Inl (Call_select, s)
      else
        (case select_existing b location (working (db s)) of
           Some existing \<Rightarrow>
             (if raises fs Call_update then Inl (Call_update, s)
              else finish_upsert fs b
                     (s\<lparr>db := (db s)\<lparr>working :=
                            update_existing now b location (working (db s))\<rparr>\<rparr>))
         | None \<Rightarrow>
             (if raises fs Call_insert then Inl (Call_insert, s)
              else finish_upsert fs b
                     (s\<lparr>db := insert_new now b location category (db s),
                        new_businesses_added := Suc (new_businesses_added s),
                        logs := logs s @ [LogInfo ''Added new business'']\<rparr>))))"

text \<open>
  \<open>save_business\<close>: the handler logs the error and rolls back; the rollback is a call
  on the connection like the others and is not guarded, so when it raises the exception
  leaves \<open>save_business\<close> (\<open>Inl\<close>).
\<close>

definition save_business ::
    "db_call list \<Rightarrow> timestamp \<Rightarrow> business \<Rightarrow> string \<Rightarrow> string \<Rightarrow> scraper
      \<Rightarrow> (error \<times> scraper) + scraper" where
  "save_business fs now b location category s =
     (case upsert_body fs now b location category
             (s\<lparr>logs := logs s @ [LogInfo ''Attempting to save'']\<rparr>) of
        Inr s1 \<Rightarrow> Inr s1
      | Inl (c, s1) \<Rightarrow>
          (let s2 = s1\<lparr>logs := logs s1 @ [LogError ''Error saving business'']\<rparr>
           in if raises fs Call_rollback then Inl (DbError Call_rollback, s2)
              else Inr (s2\<lparr>db := rollback (db s2)\<rparr>)))"

text \<open>The calls on the connection that one invocation makes when none of them raises.\<close>

definition upsert_calls :: "business \<Rightarrow> string \<Rightarrow> scraper \<Rightarrow> db_call list" where
  "upsert_calls b location s =
     [Call_cursor, Call_select,
      (if select_existing b location (working (db s)) = None then Call_insert else Call_update),
      Call_commit]"

section \<open>Configuration\<close>

definition REQUESTS_PER_SESSION :: nat where
  "REQUESTS_PER_SESSION = 10"

definition LOCATIONS :: "string list" where
  "LOCATIONS = [''Shorewood, IL'', ''Plainfield, IL'', ''Joliet, IL'', ''Naperville, IL'',
                ''Channahon, IL'', ''Minooka, IL'']"

definition CATEGORIES :: "string list" where
  "CATEGORIES = [''restaurant'', ''plumber'', ''electrician'', ''contractor'', ''landscaping'',
                 ''auto repair'', ''hair salon'', ''dentist'', ''real estate agent'', ''lawyer'',
                 ''accountant'', ''insurance agent'']"

record mode_config =
  mode_locations :: "nat option"
  mode_categories :: "nat option"
  max_pages :: nat

text \<open>\<open>SCRAPE_MODES.get(mode, SCRAPE_MODES['test'])\<close>\<close>

definition SCRAPE_MODES :: "string \<Rightarrow> mode_config" where
  "SCRAPE_MODES mode =
     (if mode = ''full'' then \<lparr>mode_locations = None, mode_categories = None, max_pages = 5\<rparr>
      else if mode = ''debug''
        then \<lparr>mode_locations = Some 1, mode_categories = Some 1, max_pages = 2\<rparr>
      else \<lparr>mode_locations = Some 1, mode_categories = Some 2, max_pages = 1\<rparr>)"

section \<open>Pacing\<close>

text \<open>
  The pauses are events of the trace; how long the random pause lasts is not recorded.
\<close>

definition polite_delay :: "scraper \<Rightarrow> scraper" where
  "polite_delay s =
     s\<lparr>logs := logs s @ [LogInfo ''Waiting before next request''],
       trace := trace s @ [Ev_polite_delay]\<rparr>"

definition session_break :: "scraper \<Rightarrow> scraper" where
  "session_break s =
     s\<lparr>logs := logs s @ [LogInfo ''Taking a session break''],
       trace := trace s @ [Ev_session_break],
       request_count := 0\<rparr>"

definition check_session_break :: "scraper \<Rightarrow> scraper" where
  "check_session_break s =
     (let s1 = s\<lparr>request_count := Suc (request_count s)\<rparr>
      in if request_count s1 \<ge> REQUESTS_PER_SESSION then session_break s1 else s1)"

section \<open>The browser's answers\<close>

text \<open>
  The result pages of one query, as the browser shows them: a page with a next button
  carries the outcome of the click on it and the pages that follow.
\<close>

datatype 'p chain = Last_page 'p | Next_page 'p outcome "'p chain"

fun first_page :: "'p chain \<Rightarrow> 'p" where
  "first_page (Last_page p) = p"
| "first_page (Next_page p _ _) = p"

section \<open>The listing-card scraper (\<open>google_scraper.py\<close>)\<close>

text \<open>
  One element of the result list, as its accessors answer: the inner text of the name
  node (\<open>None\<close> when there is no such node), the element's inner text, the texts of the
  nodes of the three phone selectors, the address node's text, the rating node's
  \<open>aria-label\<close> (outer \<open>None\<close>: no rating node), the \<open>href\<close> and the \<open>data-url\<close>
  of the enclosing link, and whether one of the accessors raises.
\<close>

record listing =
  l_name :: "string option"
  l_details :: string
  l_phone_nodes :: "string option list"
  l_address :: "string option"
  l_rating_label :: "string option option"
  l_href :: "string option"
  l_data_url :: "string option"
  l_raises :: bool

text \<open>The three phone patterns of the card scraper; \<open>match.group()\<close> is the whole match.\<close>

definition card_phone_patterns :: "rx list" where
  "card_phone_patterns =
     [Grp us_number,
      Grp (seqs [Rep 3 digit, separator, Rep 3 digit, separator, Rep 4 digit]),
      Grp (Rep 10 digit)]"

text \<open>\<open>re.sub(r'[^\d\-() ]', '', phone).strip()\<close>\<close>

definition clean_phone :: "string \<Rightarrow> string" where
  "clean_phone t = py_strip (filter (\<lambda>c. is_digit c \<or> c \<in> set ''-() '') t)"

text \<open>\<open>\d{3}.*\d{3}.*\d{4}\<close>\<close>

definition looks_like_phone :: rx where
  "looks_like_phone =
     seqs [Rep 3 digit, Star (other_than (CHR 0x0A)), Rep 3 digit, Star (other_than (CHR 0x0A)),
           Rep 4 digit]"

fun phone_from_nodes :: "string option list \<Rightarrow> string option" where
  "phone_from_nodes [] = None"
| "phone_from_nodes (None # ns) = phone_from_nodes ns"
| "phone_from_nodes (Some t # ns) =
     (if re_search looks_like_phone t \<noteq> None then Some (py_strip t) else phone_from_nodes ns)"

definition card_phone :: "listing \<Rightarrow> string option" where
  "card_phone l =
     (let found = map_option clean_phone (first_match card_phone_patterns (l_details l))
      in if truthy found then found
         else (case phone_from_nodes (l_phone_nodes l) of
                 None \<Rightarrow> found
               | Some t \<Rightarrow> Some t))"

text \<open>
  \<open>float(rating_text.split()[0])\<close> inside \<open>try\<close>: an empty split (IndexError) and an
  unparseable first word (ValueError) both give \<open>None\<close>.
\<close>

definition card_rating :: "listing \<Rightarrow> pyfloat option" where
  "card_rating l =
     (case l_rating_label l of
        None \<Rightarrow> None
      | Some None \<Rightarrow> None
      | Some (Some t) \<Rightarrow>
          if t = [] then None
          else (case py_words t of [] \<Rightarrow> None | w # _ \<Rightarrow> py_float w))"

text \<open>
  The body of the loop over the elements: the record of one element, or \<open>None\<close> when
  an accessor raised (the exception is logged and the element skipped) or when the name
  is falsy (the record is not appended).
\<close>

definition extract_listing :: "listing \<Rightarrow> business option" where
  "extract_listing l =
     (if l_raises l then None
      else
        (let b = \<lparr>name = l_name l, phone = card_phone l, address = l_address l,
                  rating = card_rating l,
                  gbp_url = (if truthy (l_href l) then l_href l else None),
                  has_website = truthy (l_data_url l), website_url = l_data_url l\<rparr>
         in if truthy (name b) then Some b else None))"

text \<open>
  A result page: the elements of the selector \<open>.rllt__details\<close>, those of the
  alternative selector, and whether the query for them raises.
\<close>

record results_page =
  rllt_details :: "listing list"
  data_hveid :: "listing list"
  query_raises :: bool

definition extract_businesses_from_page :: "results_page \<Rightarrow> business list option" where
  "extract_businesses_from_page pg =
     (if query_raises pg then None
      else Some (List.map_filter extract_listing
                   (if rllt_details pg = [] then data_hveid pg else rllt_details pg)))"

text \<open>
  How the outside answers during one query: the navigation to the search URL, whether the
  results marker appears within the wait, the result pages, and for the k-th record
  saved the calls on the connection that raise and the database's time.
\<close>

record query_env =
  goto_result :: outcome
  marker_appears :: bool
  result_pages :: "results_page chain"
  save_faults :: "nat \<Rightarrow> db_call list"
  save_time :: "nat \<Rightarrow> timestamp"

definition search_query :: "string \<Rightarrow> string \<Rightarrow> string" where
  "search_query location category = category @ '' near '' @ location"

text \<open>\<open>click_next_page\<close>: the session check, then the click (which may raise).\<close>

definition click_next_page :: "outcome \<Rightarrow> scraper \<Rightarrow> (outcome \<times> scraper) + scraper" where
  "click_next_page click s =
     (let s1 = check_session_break s;
          s2 = s1\<lparr>trace := trace s1 @ [Ev_click_next click]\<rparr>
      in if click = Done then Inr s2 else Inl (click, s2))"

text \<open>
  The \<open>while\<close> loop of \<open>search_businesses\<close> over the further pages; the page at the
  head of the chain has been extracted already.
\<close>

fun more_pages ::
    "nat \<Rightarrow> nat \<Rightarrow> results_page chain \<Rightarrow> business list \<Rightarrow> scraper
      \<Rightarrow> (outcome \<times> scraper) + (business list \<times> scraper)" where
  "more_pages mx page_count (Last_page pg) all_businesses s = Inr (all_businesses, s)"
| "more_pages mx page_count (Next_page pg click rest) all_businesses s =
     (if page_count < mx then
        (case click_next_page click s of
           Inl e \<Rightarrow> Inl e
         | Inr s1 \<Rightarrow>
             (let s2 = polite_delay s1
              in case extract_businesses_from_page (first_page rest) of
                   None \<Rightarrow> Inl (Failed, s2)
                 | Some more_businesses \<Rightarrow>
                     more_pages mx (Suc page_count) rest (all_businesses @ more_businesses) s2))
      else Inr (all_businesses, s))"

text \<open>The body of the \<open>try\<close> of \<open>search_businesses\<close>.\<close>

definition search_body ::
    "mode_config \<Rightarrow> query_env \<Rightarrow> string \<Rightarrow> string \<Rightarrow> scraper
      \<Rightarrow> (outcome \<times> scraper) + (business list \<times> scraper)" where
  "search_body cfg env location category s =
     (let s1 = check_session_break s;
          s2 = s1\<lparr>trace := trace s1
                              @ [Ev_goto (search_query location category) (goto_result env)]\<rparr>
      in if goto_result env \<noteq> Done then Inl (goto_result env, s2)
         else
           (let s3 = polite_delay s2
            in if \<not> marker_appears env
               then Inr ([], s3\<lparr>logs := logs s3 @ [LogWarning ''No results found'']\<rparr>)
               else
                 (case extract_businesses_from_page (first_page (result_pages env)) of
                    None \<Rightarrow> Inl (Failed, s3)
                  | Some businesses \<Rightarrow>
                      (case more_pages (max_pages cfg) 1 (result_pages env) businesses s3 of
                         Inl e \<Rightarrow> Inl e
                       | Inr (all_businesses, s4) \<Rightarrow>
                           Inr (all_businesses,
                                s4\<lparr>logs := logs s4 @ [LogInfo ''Found businesses'']\<rparr>)))))"

text \<open>
  \<open>search_businesses\<close>: both handlers log and return the empty list, so the call
  always returns.
\<close>

definition search_businesses ::
    "mode_config \<Rightarrow> query_env \<Rightarrow> string \<Rightarrow> string \<Rightarrow> scraper \<Rightarrow> business list \<times> scraper" where
  "search_businesses cfg env location category s =
     (let s0 = s\<lparr>logs := logs s @ [LogInfo ''Searching'']\<rparr>
      in case search_body cfg env location category s0 of
           Inr (all_businesses, s1) \<Rightarrow> (all_businesses, s1)
         | Inl (TimedOut, s1) \<Rightarrow> ([], s1\<lparr>logs := logs s1 @ [LogError ''Timeout searching'']\<rparr>)
         | Inl (_, s1) \<Rightarrow> ([], s1\<lparr>logs := logs s1 @ [LogError ''Error searching'']\<rparr>))"

section \<open>The orchestrator (\<open>run_scrape\<close> of \<open>google_scraper.py\<close>)\<close>

text \<open>The loop over the records of one query: save, then count.\<close>

fun save_all ::
    "query_env \<Rightarrow> string \<Rightarrow> string \<Rightarrow> nat \<Rightarrow> business list \<Rightarrow> scraper
      \<Rightarrow> (error \<times> scraper) + scraper" where
  "save_all env location category k [] s = Inr s"
| "save_all env location category k (b # bs) s =
     (case save_business (save_faults env k) (save_time env k) b location category s of
        Inl e \<Rightarrow> Inl e
      | Inr s1 \<Rightarrow>
          save_all env location category (Suc k) bs
            (s1\<lparr>businesses_found := Suc (businesses_found s1)\<rparr>))"

text \<open>One (location, category) pair: search, save what was found, pause.\<close>

definition run_pair ::
    "mode_config \<Rightarrow> query_env \<Rightarrow> string \<Rightarrow> string \<Rightarrow> scraper \<Rightarrow> (error \<times> scraper) + scraper" where
  "run_pair cfg env location category s =
     (case search_businesses cfg env location category s of
        (businesses, s1) \<Rightarrow>
          (case save_all env location category 0 businesses
                  (s1\<lparr>logs := logs s1 @ [LogInfo ''Processing businesses'']\<rparr>) of
             Inl e \<Rightarrow> Inl e
           | Inr s2 \<Rightarrow> Inr (polite_delay s2)))"

text \<open>
  The two nested \<open>for\<close> loops, as one loop over the pairs in their order; \<open>web k\<close>
  is how the outside answers during the k-th query of the run.
\<close>

fun run_pairs ::
    "mode_config \<Rightarrow> (nat \<Rightarrow> query_env) \<Rightarrow> nat \<Rightarrow> (string \<times> string) list \<Rightarrow> scraper
      \<Rightarrow> (error \<times> scraper) + scraper" where
  "run_pairs cfg web k [] s = Inr s"
| "run_pairs cfg web k ((location, category) # ps) s =
     (case run_pair cfg (web k) location category s of
        Inl e \<Rightarrow> Inl e
      | Inr s1 \<Rightarrow> run_pairs cfg web (Suc k) ps s1)"

definition pairs_of :: "string list \<Rightarrow> string list \<Rightarrow> (string \<times> string) list" where
  "pairs_of locations categories =
     concat (map (\<lambda>location. map (\<lambda>category. (location, category)) categories) locations)"

text \<open>\<open>(given or default)[:cap]\<close>, and \<open>given or default\<close> when the mode has no cap.\<close>

definition effective :: "nat option \<Rightarrow> string list option \<Rightarrow> string list \<Rightarrow> string list" where
  "effective cap given dflt =
     (let chosen = (case given of None \<Rightarrow> dflt | Some l \<Rightarrow> if l = [] then dflt else l)
      in case cap of None \<Rightarrow> chosen | Some n \<Rightarrow> take n chosen)"

text \<open>The run ledger: one INSERT at the start, one UPDATE at the end, each committed.\<close>

definition create_scrape_run :: "bool \<Rightarrow> scraper \<Rightarrow> (error \<times> scraper) + (nat \<times> scraper)" where
  "create_scrape_run ok s =
     (if \<not> ok then Inl (DbError Call_create_run, s)
      else
        (let d = db s; rid = Suc (length (scrape_runs d))
         in Inr (rid,
               s\<lparr>db := d\<lparr>scrape_runs := scrape_runs d @
                      [\<lparr>run_id = rid, run_status = ''running'', run_found = 0,
                        run_without_websites = 0, run_new = 0, run_error_log = None\<rparr>],
                    committed := working d\<rparr>\<rparr>)))"

definition update_scrape_run ::
    "bool \<Rightarrow> nat \<Rightarrow> string \<Rightarrow> string option \<Rightarrow> scraper \<Rightarrow> (error \<times> scraper) + scraper" where
  "update_scrape_run ok rid status error_log s =
     (if \<not> ok then Inl (DbError Call_update_run, s)
      else
        (let d = db s
         in Inr (s\<lparr>db := d\<lparr>scrape_runs :=
                      map (\<lambda>r. if run_id r = rid
                                then r\<lparr>run_status := status, run_found := businesses_found s,
                                       run_without_websites := businesses_without_websites s,
                                       run_new := new_businesses_added s,
                                       run_error_log := error_log\<rparr>
                                else r) (scrape_runs d),
                    committed := working d\<rparr>\<rparr>)))"

section \<open>Cleanup\<close>

fun handle_of :: "release_call \<Rightarrow> scraper \<Rightarrow> handle_state" where
  "handle_of Close_page s = page_h s"
| "handle_of Close_context s = context_h s"
| "handle_of Close_browser s = browser_h s"
| "handle_of Close_db s = db_conn_h s"

fun set_handle :: "release_call \<Rightarrow> handle_state \<Rightarrow> scraper \<Rightarrow> scraper" where
  "set_handle Close_page h s = s\<lparr>page_h := h\<rparr>"
| "set_handle Close_context h s = s\<lparr>context_h := h\<rparr>"
| "set_handle Close_browser h s = s\<lparr>browser_h := h\<rparr>"
| "set_handle Close_db h s = s\<lparr>db_conn_h := h\<rparr>"

text \<open>
  One statement \<open>if self.h: self.h.close()\<close>. A handle that was never set is skipped;
  \<open>fs\<close> lists the close calls that raise.
\<close>

definition release :: "release_call list \<Rightarrow> release_call \<Rightarrow> scraper \<Rightarrow> (error \<times> scraper) + scraper" where
  "release fs c s =
     (if handle_of c s = Absent then Inr s
      else
        (let s1 = s\<lparr>trace := trace s @ [Ev_release c]\<rparr>
         in if c \<in> set fs then Inl (ReleaseError c, s1)
            else Inr (set_handle c Released s1)))"

fun release_in_order ::
    "release_call list \<Rightarrow> release_call list \<Rightarrow> scraper \<Rightarrow> (error \<times> scraper) + scraper" where
  "release_in_order fs [] s = Inr s"
| "release_in_order fs (c # cs) s =
     (case release fs c s of
        Inl e \<Rightarrow> Inl e
      | Inr s1 \<Rightarrow> release_in_order fs cs s1)"

text \<open>\<open>cleanup\<close>: the four statements in their order, none of them guarded.\<close>

definition cleanup :: "release_call list \<Rightarrow> scraper \<Rightarrow> (error \<times> scraper) + scraper" where
  "cleanup fs s = release_in_order fs [Close_page, Close_context, Close_browser, Close_db] s"

section \<open>\<open>run_scrape\<close>\<close>

text \<open>
  What the outside does during one run: whether the browser starts, the database
  connects, the ledger calls succeed, how each query is answered, and which close calls
  raise.
\<close>

record run_env =
  launch_ok :: bool
  connect_ok :: bool
  create_run_ok :: bool
  complete_run_ok :: bool
  fail_run_ok :: bool
  web :: "nat \<Rightarrow> query_env"
  release_faults :: "release_call list"

text \<open>\<open>try: ... finally: await self.cleanup()\<close>: an exception of the cleanup replaces
  the one in flight.\<close>

definition finally_cleanup ::
    "release_call list \<Rightarrow> (error \<times> scraper) + scraper \<Rightarrow> (error \<times> scraper) + scraper" where
  "finally_cleanup fs r =
     (case r of
        Inr s \<Rightarrow> cleanup fs s
      | Inl (e, s) \<Rightarrow>
          (case cleanup fs s of
             Inl e' \<Rightarrow> Inl e'
           | Inr s1 \<Rightarrow> Inl (e, s1)))"

text \<open>The \<open>try\<close> block and its \<open>except\<close> handler, which logs, marks the run as failed
  and raises again.\<close>

definition crawl :: "run_env \<Rightarrow> mode_config \<Rightarrow> nat \<Rightarrow> (string \<times> string) list \<Rightarrow> scraper
      \<Rightarrow> (error \<times> scraper) + scraper" where
  "crawl env cfg rid pairs s =
     (case (case run_pairs cfg (web env) 0 pairs s of
              Inl e \<Rightarrow> Inl e
            | Inr s1 \<Rightarrow> update_scrape_run (complete_run_ok env) rid ''completed'' None s1) of
        Inr s2 \<Rightarrow> Inr s2
      | Inl (e, s1) \<Rightarrow>
          (let s2 = s1\<lparr>logs := logs s1 @ [LogError ''Scraping error'']\<rparr>
           in case update_scrape_run (fail_run_ok env) rid ''failed'' (Some ''error'') s2 of
                Inl e' \<Rightarrow> Inl e'
              | Inr s3 \<Rightarrow> Inl (e, s3)))"

definition run_scrape ::
    "run_env \<Rightarrow> string \<Rightarrow> string list option \<Rightarrow> string list option \<Rightarrow> scraper
      \<Rightarrow> (error \<times> scraper) + scraper" where
  "run_scrape env mode locations categories s =
     (let cfg = SCRAPE_MODES mode
      in if \<not> launch_ok env then Inl (BrowserError, s)
         else
           (let s1 = s\<lparr>browser_h := Live, context_h := Live, page_h := Live\<rparr>
            in if \<not> connect_ok env then Inl (DbError Call_connect, s1)
               else
                 (let s2 = s1\<lparr>db_conn_h := Live,
                               logs := logs s1 @ [LogInfo ''Database connection established'']\<rparr>;
                      locs = effective (mode_locations cfg) locations LOCATIONS;
                      cats = effective (mode_categories cfg) categories CATEGORIES;
                      s3 = s2\<lparr>logs := logs s2 @ [LogInfo ''Starting scrape'']\<rparr>
                  in case create_scrape_run (create_run_ok env) s3 of
                       Inl e \<Rightarrow> Inl e
                     | Inr (rid, s4) \<Rightarrow>
                         finally_cleanup (release_faults env)
                           (crawl env cfg rid (pairs_of locs cats) s4))))"

section \<open>The click-through scraper (\<open>general_business_scraper.py\<close>)\<close>

text \<open>
  The model follows \<open>general_business_scraper.py\<close>. The per-listing loop, the
  extraction of phone and rating and \<open>save_business\<close> are the same in
  \<open>google_scraper_v2.py\<close>, which visits one result page only and collects the records
  instead of saving them at once.
\<close>

text \<open>
  An element of \<open>.rllt__details\<close> as the per-listing loop reads it: the inner texts of
  its two possible name nodes (\<open>None\<close>: no such node).
\<close>

record card =
  primary_name :: "string option"
  secondary_name :: "string option"

text \<open>
  The detail view after the click: whether the wait for each of the two panel selectors
  succeeds, the page content, and for each of the six website selectors whether it finds
  an element.
\<close>

record detail_view =
  main_panel :: bool
  xpdopen_panel :: bool
  page_content :: string
  website_indicators :: "bool list"

text \<open>
  \<open>extract_business_details\<close>: \<open>None\<close> when neither panel appears (the timeout is
  caught and logged); the URL is set by the caller.
\<close>

definition extract_business_details :: "detail_view \<Rightarrow> string \<Rightarrow> business option" where
  "extract_business_details dv business_name =
     (if \<not> main_panel dv \<and> \<not> xpdopen_panel dv then None
      else Some \<lparr>name = Some business_name,
                 phone = extract_phone (page_content dv),
                 address = extract_address (page_content dv),
                 rating = extract_rating (page_content dv),
                 gbp_url = None,
                 has_website = (True \<in> set (website_indicators dv)),
                 website_url = None\<rparr>)"

text \<open>
  \<open>extract_business_details\<close> of \<open>google_scraper_v2.py\<close>: the same two panel
  selectors, the phone and the rating by that file's patterns, the same address
  patterns. The website is the URL that the file's link patterns find in the content
  once a menu button has been clicked, or \<open>None\<close> (also when that search raises); it
  is taken here as found.
\<close>

definition extract_business_details_v2 ::
    "detail_view \<Rightarrow> string option \<Rightarrow> string \<Rightarrow> business option" where
  "extract_business_details_v2 dv found_website business_name =
     (if \<not> main_panel dv \<and> \<not> xpdopen_panel dv then None
      else Some \<lparr>name = Some business_name,
                 phone = extract_phone_v2 (page_content dv),
                 address = extract_address (page_content dv),
                 rating = extract_rating_v2 (page_content dv),
                 gbp_url = None,
                 has_website = truthy found_website,
                 website_url = found_website\<rparr>)"

text \<open>
  What the outside does during iteration \<open>i\<close> of the per-listing loop: the collection
  that the re-query returns (\<open>None\<close>: the query raises), whether the click succeeds, the
  page's URL after it, the detail view, whether going back succeeds, and the faults and
  time of the save.
\<close>

record visit =
  current_elements :: "card list option"
  click_ok :: bool
  page_url :: string
  detail :: detail_view
  go_back_ok :: bool
  visit_faults :: "db_call list"
  visit_time :: timestamp

text \<open>
  A result page of this scraper: the number of elements that each of the four selectors
  for \<open>business_links\<close> finds, and the visits.
\<close>

record detail_page =
  links_hfpxzc :: nat
  links_data_cid :: nat
  links_vkpgbb :: nat
  links_rllt :: nat
  visits :: "nat \<Rightarrow> visit"

text \<open>\<open>len(business_links)\<close>: the first selector that finds something decides.\<close>

definition business_links :: "detail_page \<Rightarrow> nat" where
  "business_links pg =
     (if links_hfpxzc pg \<noteq> 0 then links_hfpxzc pg
      else if links_data_cid pg \<noteq> 0 then links_data_cid pg
      else if links_vkpgbb pg \<noteq> 0 then links_vkpgbb pg
      else links_rllt pg)"

text \<open>Python's \<open>xs[i]\<close> for \<open>i \<ge> 0\<close>: \<open>None\<close> is the IndexError.\<close>

definition py_index :: "'a list \<Rightarrow> nat \<Rightarrow> 'a option" where
  "py_index xs i = (if i < length xs then Some (xs ! i) else None)"

text \<open>The name of the listing: the first name node that exists, else a placeholder.\<close>

definition business_name_of :: "nat \<Rightarrow> card \<Rightarrow> string" where
  "business_name_of i element =
     (case primary_name element of
        Some t \<Rightarrow> t
      | None \<Rightarrow>
          (case secondary_name element of
             Some t \<Rightarrow> t
           | None \<Rightarrow> ''Business '' @ show_nat (i + 1)))"

text \<open>
  The rest of the loop body once the element is read: click, extract, save and count,
  go back. An exception anywhere in it is caught by the loop's handler, which logs it
  and continues with the next index; that includes an exception that leaves
  \<open>save_business\<close>.
\<close>

definition visit_listing :: "visit \<Rightarrow> nat \<Rightarrow> card \<Rightarrow> string \<Rightarrow> string \<Rightarrow> scraper \<Rightarrow> scraper" where
  "visit_listing v i element location category s =
     (let business_name = business_name_of i element;
          s1 = s\<lparr>logs := logs s @ [LogInfo ''Processing business'']\<rparr>
      in if \<not> click_ok v
         then s1\<lparr>logs := logs s1 @ [LogError ''Error processing business'']\<rparr>
         else
           (let s2 = s1\<lparr>trace := trace s1 @ [Ev_click_listing]\<rparr>;
                saved =
                  (case extract_business_details (detail v) business_name of
                     None \<Rightarrow> Inr s2
                   | Some b \<Rightarrow>
                       (case save_business (visit_faults v) (visit_time v)
                               (b\<lparr>gbp_url := Some (page_url v)\<rparr>) location category s2 of
                          Inl e \<Rightarrow> Inl e
                        | Inr s3 \<Rightarrow> Inr (s3\<lparr>businesses_found := Suc (businesses_found s3)\<rparr>)))
            in case saved of
                 Inl (e, s3) \<Rightarrow> s3\<lparr>logs := logs s3 @ [LogError ''Error processing business'']\<rparr>
               | Inr s3 \<Rightarrow>
                   if go_back_ok v then s3\<lparr>trace := trace s3 @ [Ev_go_back]\<rparr>
                   else s3\<lparr>logs := logs s3 @ [LogError ''Error processing business'']\<rparr>))"

text \<open>
  The loop \<open>for i in range(min(20, len(business_links)))\<close>, over the list of its
  indices. Each iteration queries the collection again, leaves the loop when the index
  is not below its length, and reads the element at the index otherwise.
\<close>

fun listing_loop :: "detail_page \<Rightarrow> string \<Rightarrow> string \<Rightarrow> nat list \<Rightarrow> scraper \<Rightarrow> scraper" where
  "listing_loop pg location category [] s = s"
| "listing_loop pg location category (i # rest) s =
     (case current_elements (visits pg i) of
        None \<Rightarrow>
          listing_loop pg location category rest
            (s\<lparr>logs := logs s @ [LogError ''Error processing business'']\<rparr>)
      | Some elements \<Rightarrow>
          (let s1 = s\<lparr>trace := trace s @ [Ev_requery (length elements)]\<rparr>
           in if i \<ge> length elements then s1
              else
                (case py_index elements i of
                   None \<Rightarrow>
                     listing_loop pg location category rest
                       (s1\<lparr>trace := trace s1 @ [Ev_index_error],
                           logs := logs s1 @ [LogError ''Error processing business'']\<rparr>)
                 | Some element \<Rightarrow>
                     listing_loop pg location category rest
                       (visit_listing (visits pg i) i element location category
                          (s1\<lparr>trace := trace s1 @ [Ev_access i]\<rparr>)))))"

definition process_page :: "detail_page \<Rightarrow> string \<Rightarrow> string \<Rightarrow> scraper \<Rightarrow> scraper" where
  "process_page pg location category s =
     listing_loop pg location category [0..<min 20 (business_links pg)]
       (s\<lparr>logs := logs s @ [LogInfo ''Found business elements'']\<rparr>)"

text \<open>The \<open>while page_count < max_pages\<close> loop over the result pages.\<close>

fun process_pages ::
    "nat \<Rightarrow> nat \<Rightarrow> detail_page chain \<Rightarrow> string \<Rightarrow> string \<Rightarrow> scraper
      \<Rightarrow> (outcome \<times> scraper) + scraper" where
  "process_pages mx page_count (Last_page pg) location category s =
     (if page_count < mx then Inr (process_page pg location category s) else Inr s)"
| "process_pages mx page_count (Next_page pg click rest) location category s =
     (if page_count < mx then
        (let s1 = process_page pg location category s
         in if Suc page_count < mx then
              (case click_next_page click s1 of
                 Inl e \<Rightarrow> Inl e
               | Inr s2 \<Rightarrow> process_pages mx (Suc page_count) rest location category (polite_delay s2))
            else Inr s1)
      else Inr s)"

record detail_query_env =
  dq_goto_result :: outcome
  dq_marker_appears :: bool
  dq_result_pages :: "detail_page chain"

definition search_and_save_body ::
    "mode_config \<Rightarrow> detail_query_env \<Rightarrow> string \<Rightarrow> string \<Rightarrow> scraper
      \<Rightarrow> (outcome \<times> scraper) + scraper" where
  "search_and_save_body cfg env location category s =
     (let s1 = check_session_break s;
          s2 = s1\<lparr>trace := trace s1
                              @ [Ev_goto (search_query location category) (dq_goto_result env)]\<rparr>
      in if dq_goto_result env \<noteq> Done then Inl (dq_goto_result env, s2)
         else
           (let s3 = polite_delay s2
            in if \<not> dq_marker_appears env
               then Inr (s3\<lparr>logs := logs s3 @ [LogWarning ''No results found'']\<rparr>)
               else
                 (case process_pages (max_pages cfg) 0 (dq_result_pages env) location category s3 of
                    Inl e \<Rightarrow> Inl e
                  | Inr s4 \<Rightarrow> Inr (s4\<lparr>logs := logs s4 @ [LogInfo ''Processed businesses'']\<rparr>))))"

text \<open>\<open>search_businesses_and_save\<close>: both handlers log; what was saved stays.\<close>

definition search_businesses_and_save ::
    "mode_config \<Rightarrow> detail_query_env \<Rightarrow> string \<Rightarrow> string \<Rightarrow> scraper \<Rightarrow> scraper" where
  "search_businesses_and_save cfg env location category s =
     (case search_and_save_body cfg env location category
             (s\<lparr>logs := logs s @ [LogInfo ''Searching'']\<rparr>) of
        Inr s1 \<Rightarrow> s1
      | Inl (TimedOut, s1) \<Rightarrow> s1\<lparr>logs := logs s1 @ [LogError ''Timeout searching'']\<rparr>
      | Inl (_, s1) \<Rightarrow> s1\<lparr>logs := logs s1 @ [LogError ''Error searching'']\<rparr>)"

section \<open>Observing a run\<close>

text \<open>The object after a call, whether it returned or raised.\<close>

definition final_state :: "('e \<times> scraper) + scraper \<Rightarrow> scraper" where
  "final_state r = (case r of Inl (e, s) \<Rightarrow> s | Inr s \<Rightarrow> s)"

definition handles :: "scraper \<Rightarrow> handle_state \<times> handle_state \<times> handle_state \<times> handle_state" where
  "handles s = (page_h s, context_h s, browser_h s, db_conn_h s)"

text \<open>
  The navigations of a query are the search request and the click on the next button
  (with the wait for the page to load); each one carries the way it ended.
\<close>

fun outcome_of :: "event \<Rightarrow> outcome option" where
  "outcome_of (Ev_goto q r) = Some r"
| "outcome_of (Ev_click_next r) = Some r"
| "outcome_of e = None"

text \<open>
  Reading a list of events as rounds of pacing. A round is the session check (the long
  break, which resets the request counter, exactly when the incremented counter reaches
  the threshold; no event otherwise), then one navigation, then directly the pause when
  the navigation returned; a navigation that raised ends the list. The reader is in one
  of these phases, each with the value of the request counter: before a round
  (\<open>Idle\<close>), after the long break of a round (\<open>Rested\<close>), after a navigation that
  returned (\<open>Navigated\<close>), after one that raised (\<open>Raised\<close>); \<open>Violated\<close> once
  an event is not the one that the phase allows.
\<close>

datatype phase = Idle nat | Rested | Navigated nat | Raised nat | Violated

fun pace_step :: "phase \<Rightarrow> event \<Rightarrow> phase" where
  "pace_step (Idle n) e =
     (if REQUESTS_PER_SESSION \<le> Suc n then (if e = Ev_session_break then Rested else Violated)
      else (case outcome_of e of
              None \<Rightarrow> Violated
            | Some r \<Rightarrow> if r = Done then Navigated (Suc n) else Raised (Suc n)))"
| "pace_step Rested e =
     (case outcome_of e of
        None \<Rightarrow> Violated
      | Some r \<Rightarrow> if r = Done then Navigated 0 else Raised 0)"
| "pace_step (Navigated n) e = (if e = Ev_polite_delay then Idle n else Violated)"
| "pace_step (Raised n) e = Violated"
| "pace_step Violated e = Violated"

text \<open>
  \<open>paced n evs n'\<close>: starting before a round with the counter at \<open>n\<close>, the events
  are rounds, complete or ended by a navigation that raised, and leave the counter at
  \<open>n'\<close>. So every navigation in \<open>evs\<close> directly follows the session check of its
  round, every navigation that returned is directly followed by the pause, and the
  counter has been incremented once per navigation.
\<close>

definition paced :: "nat \<Rightarrow> event list \<Rightarrow> nat \<Rightarrow> bool" where
  "paced n evs n' =
     (foldl pace_step (Idle n) evs = Idle n' \<or> foldl pace_step (Idle n) evs = Raised n')"

text \<open>The events of the session check: the long break when the counter reaches the
  threshold, nothing otherwise.\<close>

definition session_check_events :: "scraper \<Rightarrow> event list" where
  "session_check_events s =
     (if Suc (request_count s) \<ge> REQUESTS_PER_SESSION then [Ev_session_break] else [])"

fun is_access :: "event \<Rightarrow> bool" where
  "is_access (Ev_access i) = True"
| "is_access e = False"

text \<open>
  Every read of an element directly follows a re-query whose collection is longer than
  the index read, and no read raised an IndexError.
\<close>

fun guarded_accesses :: "event list \<Rightarrow> bool" where
  "guarded_accesses [] = True"
| "guarded_accesses (Ev_requery n # Ev_access i # es) = (i < n \<and> guarded_accesses es)"
| "guarded_accesses (Ev_access i # es) = False"
| "guarded_accesses (Ev_index_error # es) = False"
| "guarded_accesses (e # es) = guarded_accesses es"

text \<open>The patterns without a capturing group: a match of them leaves group 1 as it is.\<close>

fun group_free :: "rx \<Rightarrow> bool" where
  "group_free (Grp r) = False"
| "group_free (Seq a b) = (group_free a \<and> group_free b)"
| "group_free (Alt a b) = (group_free a \<and> group_free b)"
| "group_free (Opt a) = group_free a"
| "group_free (Star a) = group_free a"
| "group_free r = True"

section \<open>Sample values\<close>

definition empty_database :: database where
  "empty_database =
     \<lparr>committed = [], working = [], next_id = 1, default_now = True, scrape_runs = []\<rparr>"

definition fresh_scraper :: scraper where
  "fresh_scraper =
     \<lparr>db = empty_database, businesses_found = 0, businesses_without_websites = 0,
      new_businesses_added = 0, request_count = 0, page_h = Live, context_h = Live,
      browser_h = Live, db_conn_h = Live, logs = [], trace = []\<rparr>"

definition acme :: business where
  "acme = \<lparr>name = Some ''Acme Plumbing'', phone = Some ''815-555-1234'', address = None,
            rating = Some (Nearest 4), gbp_url = Some ''https://www.google.com/search?q=acme'',
            has_website = False, website_url = None\<rparr>"



definition nameless_card :: card where
  "nameless_card = \<lparr>primary_name = None, secondary_name = None\<rparr>"

definition plain_detail :: detail_view where
  "plain_detail = \<lparr>main_panel = True, xpdopen_panel = False,
                    page_content = ''<a href='' @ [dquote] @ ''tel:911'' @ [dquote] @ ''>x</a> 10 stars'',
                    website_indicators = [False, False, False, False, False, False]\<rparr>"

definition plain_visit :: visit where
  "plain_visit = \<lparr>current_elements = Some [nameless_card], click_ok = True,
                   page_url = ''https://www.google.com/search?q=x#lrd=1'', detail = plain_detail,
                   go_back_ok = True, visit_faults = [], visit_time = 7\<rparr>"

definition plain_page :: detail_page where
  "plain_page = \<lparr>links_hfpxzc = 0, links_data_cid = 0, links_vkpgbb = 0, links_rllt = 1,
                  visits = (\<lambda>_. plain_visit)\<rparr>"

definition plain_query :: detail_query_env where
  "plain_query = \<lparr>dq_goto_result = Done, dq_marker_appears = True,
                   dq_result_pages = Last_page plain_page\<rparr>"

definition quiet_query :: query_env where
  "quiet_query = \<lparr>goto_result = Done, marker_appears = False,
                   result_pages = Last_page \<lparr>rllt_details = [], data_hveid = [], query_raises = False\<rparr>,
                   save_faults = (\<lambda>_. []), save_time = (\<lambda>k. k)\<rparr>"

definition sample_listing :: listing where
  "sample_listing =
     \<lparr>l_name = Some ''Acme Plumbing'', l_details = ''Acme Plumbing (815) 555-1234'',
      l_phone_nodes = [None, None, None], l_address = Some ''1 Main St'',
      l_rating_label = Some (Some ''4.5 stars''), l_href = Some ''https://www.google.com/acme'',
      l_data_url = None, l_raises = False\<rparr>"

definition stormy_query :: query_env where
  "stormy_query = \<lparr>goto_result = Done, marker_appears = True,
                   result_pages = Last_page \<lparr>rllt_details = [sample_listing], data_hveid = [],
                                            query_raises = False\<rparr>,
                   save_faults = (\<lambda>_. [Call_select, Call_rollback]), save_time = (\<lambda>k. k)\<rparr>"

definition stormy_run :: run_env where
  "stormy_run = \<lparr>launch_ok = True, connect_ok = True, create_run_ok = True,
                  complete_run_ok = True, fail_run_ok = True, web = (\<lambda>_. stormy_query),
                  release_faults = []\<rparr>"

definition two_page_query :: query_env where
  "two_page_query =
     \<lparr>goto_result = Done, marker_appears = True,
      result_pages =
        Next_page \<lparr>rllt_details = [], data_hveid = [], query_raises = False\<rparr> Done
          (Last_page \<lparr>rllt_details = [], data_hveid = [], query_raises = False\<rparr>),
      save_faults = (\<lambda>_. []), save_time = (\<lambda>k. k)\<rparr>"

definition shrinking_page :: detail_page where
  "shrinking_page =
     \<lparr>links_hfpxzc = 30, links_data_cid = 0, links_vkpgbb = 0, links_rllt = 30,
      visits = (\<lambda>i. plain_visit\<lparr>current_elements :=
                        Some (replicate (if i < 2 then 30 else 2) nameless_card),
                      page_url := ''https://www.google.com/search?q=x#'' @ show_nat i\<rparr>)\<rparr>"

text \<open>The attribute \<open>href="tel:+18155551234"\<close>.\<close>

definition sample_tel_link :: string where
  "sample_tel_link = ''href='' @ [dquote] @ ''tel:+18155551234'' @ [dquote]"

definition two_tel_links :: string where
  "two_tel_links = ''<a href='' @ [dquote] @ ''tel:911'' @ [dquote] @ ''>Emergency</a> <a ''
                   @ sample_tel_link @ ''>Call</a>''"

section \<open>The city key\<close>






section \<open>The upsert\<close>

lemma raises_nil [simp]: "raises [] c = False"
  by (simp add: raises_def)






text \<open>A fault-free call that finds no row inserts one.\<close>

lemma save_business_insert:
  assumes "select_existing b location (working (db s)) = None"
  shows "save_business [] now b location category s =
           Inr (s\<lparr>db := commit (insert_new now b location category (db s)),
                  new_businesses_added := Suc (new_businesses_added s),
                  logs := logs s @ [LogInfo ''Attempting to save'', LogInfo ''Added new business''],
                  businesses_without_websites :=
                    (if has_website b then businesses_without_websites s
                     else Suc (businesses_without_websites s))\<rparr>)"
  using assms by (simp add: save_business_def upsert_body_def finish_upsert_def Let_def)

lemma save_business_update:
  assumes "select_existing b location (working (db s)) \<noteq> None"
  shows "save_business [] now b location category s =
           Inr (s\<lparr>db := commit ((db s)\<lparr>working := update_existing now b location (working (db s))\<rparr>),
                  logs := logs s @ [LogInfo ''Attempting to save''],
                  businesses_without_websites :=
                    (if has_website b then businesses_without_websites s
                     else Suc (businesses_without_websites s))\<rparr>)"
  using assms by (auto simp add: save_business_def upsert_body_def finish_upsert_def Let_def)





text \<open>
  Claim C2 (as amended). When a call on the connection raises inside the \<open>try\<close> and
  the rollback itself does not raise, \<open>save_business\<close> returns normally, the
  transaction is rolled back (nothing of it is committed or left pending) and the last
  log entry is the error.
\<close>

theorem save_business_failure_contained:
  assumes rb: "\<not> raises fs Call_rollback"
    and fail: "\<exists>c. c \<in> set (upsert_calls b location s) \<and> raises fs c"
  shows "\<exists>s'. save_business fs now b location category s = Inr s'
            \<and> committed (db s') = committed (db s)
            \<and> working (db s') = committed (db s)
            \<and> last (logs s') = LogError ''Error saving business''"
  using assms
  by (auto simp: save_business_def upsert_body_def finish_upsert_def upsert_calls_def
      rollback_def commit_def insert_new_def Let_def split: option.splits if_splits)

theorem save_business_failure_contained_witness:
  "\<exists>s'. save_business [Call_insert] 10 acme ''Joliet, IL'' ''plumber'' fresh_scraper = Inr s'
        \<and> committed (db s') = []
        \<and> working (db s') = []
        \<and> last (logs s') = LogError ''Error saving business''"
  using save_business_failure_contained [of "[Call_insert]" acme "''Joliet, IL''" fresh_scraper
      10 "''plumber''"]
  by (simp add: raises_def upsert_calls_def select_existing_def fresh_scraper_def
      empty_database_def)

text \<open>
  The rollback in the handler is not guarded: when the connection is gone, the SELECT
  raises, the rollback raises too, and the exception leaves \<open>save_business\<close>.
\<close>

theorem save_business_rollback_raises:
  "isl (save_business [Call_select, Call_rollback] 10 acme ''Joliet, IL'' ''plumber''
          fresh_scraper)"
  by (simp add: save_business_def upsert_body_def raises_def)

section \<open>The city as identity key\<close>



lemma final_state_simps [simp]:
  "final_state (Inl (e, s)) = s" "final_state (Inr s) = s"
  by (simp_all add: final_state_def)

text \<open>Frame: pacing and saving leave the handles alone; saving leaves the trace alone.\<close>

lemma polite_delay_frame [simp]:
  "db (polite_delay s) = db s" "businesses_found (polite_delay s) = businesses_found s"
  "new_businesses_added (polite_delay s) = new_businesses_added s"
  "businesses_without_websites (polite_delay s) = businesses_without_websites s"
  "request_count (polite_delay s) = request_count s"
  "trace (polite_delay s) = trace s @ [Ev_polite_delay]"
  "page_h (polite_delay s) = page_h s" "context_h (polite_delay s) = context_h s"
  "browser_h (polite_delay s) = browser_h s" "db_conn_h (polite_delay s) = db_conn_h s"
  by (simp_all add: polite_delay_def)

lemma check_session_break_frame [simp]:
  "db (check_session_break s) = db s"
  "businesses_found (check_session_break s) = businesses_found s"
  "new_businesses_added (check_session_break s) = new_businesses_added s"
  "businesses_without_websites (check_session_break s) = businesses_without_websites s"
  "page_h (check_session_break s) = page_h s" "context_h (check_session_break s) = context_h s"
  "browser_h (check_session_break s) = browser_h s" "db_conn_h (check_session_break s) = db_conn_h s"
  by (simp_all add: check_session_break_def session_break_def Let_def)

lemma check_session_break_trace:
  "trace (check_session_break s) =
     trace s @ (if Suc (request_count s) \<ge> REQUESTS_PER_SESSION then [Ev_session_break] else [])"
  by (simp add: check_session_break_def session_break_def Let_def)

text \<open>When the results marker does not appear, the body of the search ends early.\<close>

lemma search_businesses_no_marker:
  assumes "\<not> marker_appears env"
  shows "fst (search_businesses cfg env location category s) = []"
    and "db (snd (search_businesses cfg env location category s)) = db s"
    and "businesses_found (snd (search_businesses cfg env location category s)) = businesses_found s"
    and "new_businesses_added (snd (search_businesses cfg env location category s))
           = new_businesses_added s"
  using assms
  by (cases "goto_result env";
      simp add: search_businesses_def search_body_def Let_def split: outcome.splits)+

text \<open>
  Claim C4. When the results marker of a query does not appear, the search returns the
  empty list (it returns: both of its handlers swallow the exception), nothing is saved
  or counted, and the loop over the pairs goes on with the next pair.
\<close>

theorem no_marker_no_records:
  assumes "\<not> marker_appears (answers k)"
  shows "fst (search_businesses cfg (answers k) location category s) = []
       \<and> (\<exists>s'. run_pair cfg (answers k) location category s = Inr s'
               \<and> db s' = db s
               \<and> businesses_found s' = businesses_found s
               \<and> new_businesses_added s' = new_businesses_added s
               \<and> run_pairs cfg answers k ((location, category) # ps) s
                   = run_pairs cfg answers (Suc k) ps s')"
proof -
  obtain bs s1 where r: "search_businesses cfg (answers k) location category s = (bs, s1)"
    by (cases "search_businesses cfg (answers k) location category s")
  from search_businesses_no_marker [OF assms, of cfg location category s] r
  have bs: "bs = []" and fr: "db s1 = db s" "businesses_found s1 = businesses_found s"
    "new_businesses_added s1 = new_businesses_added s"
    by simp_all
  show ?thesis
    by (simp add: r bs fr run_pair_def)
qed

theorem no_marker_no_records_witness:
  "fst (search_businesses (SCRAPE_MODES ''test'') quiet_query ''Joliet, IL'' ''plumber''
          fresh_scraper) = []
   \<and> (\<exists>s'. run_pair (SCRAPE_MODES ''test'') quiet_query ''Joliet, IL'' ''plumber'' fresh_scraper
             = Inr s'
          \<and> db s' = empty_database
          \<and> businesses_found s' = 0
          \<and> new_businesses_added s' = 0
          \<and> run_pairs (SCRAPE_MODES ''test'') (\<lambda>_. quiet_query) 0
               [(''Joliet, IL'', ''plumber''), (''Joliet, IL'', ''dentist'')] fresh_scraper
              = run_pairs (SCRAPE_MODES ''test'') (\<lambda>_. quiet_query) 1
                  [(''Joliet, IL'', ''dentist'')] s')"
proof -
  have h: "\<not> marker_appears ((\<lambda>_. quiet_query) (0::nat))"
    by (simp add: quiet_query_def)
  from no_marker_no_records [of "\<lambda>_. quiet_query" 0, OF h, of "SCRAPE_MODES ''test''"
      "''Joliet, IL''" "''plumber''" fresh_scraper "[(''Joliet, IL'', ''dentist'')]"]
  show ?thesis
    by (simp add: fresh_scraper_def)
qed

section \<open>The handles\<close>

lemma handles_updates [simp]:
  "handles (s\<lparr>logs := l\<rparr>) = handles s" "handles (s\<lparr>trace := t\<rparr>) = handles s"
  "handles (s\<lparr>db := d\<rparr>) = handles s" "handles (s\<lparr>request_count := n\<rparr>) = handles s"
  "handles (s\<lparr>businesses_found := n\<rparr>) = handles s"
  "handles (s\<lparr>new_businesses_added := n\<rparr>) = handles s"
  "handles (s\<lparr>businesses_without_websites := n\<rparr>) = handles s"
  by (simp_all add: handles_def)

lemma handles_pacing [simp]:
  "handles (polite_delay s) = handles s" "handles (check_session_break s) = handles s"
  by (simp_all add: handles_def)

lemma finish_upsert_handles:
  "handles (final_state (finish_upsert fs b s)) = handles s"
  by (simp add: finish_upsert_def Let_def)

lemma upsert_body_handles:
  "handles (final_state (upsert_body fs now b location category s)) = handles s"
  by (simp add: upsert_body_def finish_upsert_handles split: option.splits)

lemma save_business_handles:
  "handles (final_state (save_business fs now b location category s)) = handles s"
proof (cases "upsert_body fs now b location category
                (s\<lparr>logs := logs s @ [LogInfo ''Attempting to save'']\<rparr>)")
  case (Inl a)
  with upsert_body_handles [of fs now b location category
      "s\<lparr>logs := logs s @ [LogInfo ''Attempting to save'']\<rparr>"]
  show ?thesis by (cases a) (simp add: save_business_def Let_def)
next
  case (Inr s1)
  with upsert_body_handles [of fs now b location category
      "s\<lparr>logs := logs s @ [LogInfo ''Attempting to save'']\<rparr>"]
  show ?thesis by (simp add: save_business_def)
qed

lemma click_next_page_handles:
  "handles (final_state (click_next_page click s)) = handles s"
  by (simp add: click_next_page_def Let_def)

lemma more_pages_handles:
  "handles (case more_pages mx n ch acc s of Inl (e, s') \<Rightarrow> s' | Inr (bs, s') \<Rightarrow> s') = handles s"
proof (induction mx n ch acc s rule: more_pages.induct)
  case (1 mx page_count pg all_businesses s)
  then show ?case by simp
next
  case (2 mx page_count pg click rest all_businesses s)
  show ?case
  proof (cases "page_count < mx")
    case False
    then show ?thesis by simp
  next
    case True
    show ?thesis
    proof (cases "click_next_page click s")
      case (Inl a)
      with click_next_page_handles [of click s] True show ?thesis
        by (cases a) simp
    next
      case (Inr s1)
      with click_next_page_handles [of click s] have h1: "handles s1 = handles s" by simp
      show ?thesis
      proof (cases "extract_businesses_from_page (first_page rest)")
        case None
        with True Inr h1 show ?thesis by simp
      next
        case (Some more_businesses)
        with True Inr h1 "2.IH" [OF True Inr refl Some] show ?thesis by simp
      qed
    qed
  qed
qed

lemma search_businesses_handles:
  "handles (snd (search_businesses cfg env location category s)) = handles s"
proof -
  let ?s3 = "polite_delay
      ((check_session_break (s\<lparr>logs := logs s @ [LogInfo ''Searching'']\<rparr>))
         \<lparr>trace := trace (check_session_break (s\<lparr>logs := logs s @ [LogInfo ''Searching'']\<rparr>))
              @ [Ev_goto (search_query location category) (goto_result env)]\<rparr>)"
  have h3: "handles ?s3 = handles s" by simp
  show ?thesis
  proof (cases "goto_result env = Done \<and> marker_appears env")
    case False
    then show ?thesis
      by (cases "goto_result env")
        (auto simp: search_businesses_def search_body_def Let_def)
  next
    case True
    show ?thesis
    proof (cases "extract_businesses_from_page (first_page (result_pages env))")
      case None
      with True show ?thesis
        by (simp add: search_businesses_def search_body_def Let_def)
    next
      case (Some businesses)
      from more_pages_handles [of "max_pages cfg" 1 "result_pages env" businesses ?s3] h3
      show ?thesis
        using True Some
        by (auto simp: search_businesses_def search_body_def Let_def
            split: sum.splits outcome.splits prod.splits)
    qed
  qed
qed

lemma save_all_handles:
  "handles (final_state (save_all env location category k bs s)) = handles s"
proof (induction bs arbitrary: k s)
  case Nil
  then show ?case by simp
next
  case (Cons b bs)
  show ?case
  proof (cases "save_business (save_faults env k) (save_time env k) b location category s")
    case (Inl a)
    with save_business_handles [of "save_faults env k" "save_time env k" b location category s]
    show ?thesis by (cases a) simp
  next
    case (Inr s1)
    with save_business_handles [of "save_faults env k" "save_time env k" b location category s]
      Cons.IH [of "Suc k" "s1\<lparr>businesses_found := Suc (businesses_found s1)\<rparr>"]
    show ?thesis by simp
  qed
qed

lemma run_pair_handles:
  "handles (final_state (run_pair cfg env location category s)) = handles s"
proof -
  obtain bs s1 where r: "search_businesses cfg env location category s = (bs, s1)"
    by (cases "search_businesses cfg env location category s")
  with search_businesses_handles [of cfg env location category s]
  have h1: "handles s1 = handles s" by simp
  from save_all_handles [of env location category 0 bs
      "s1\<lparr>logs := logs s1 @ [LogInfo ''Processing businesses'']\<rparr>"] h1
  show ?thesis
    by (cases "save_all env location category 0 bs
                 (s1\<lparr>logs := logs s1 @ [LogInfo ''Processing businesses'']\<rparr>)")
      (auto simp: run_pair_def r)
qed

lemma run_pairs_handles:
  "handles (final_state (run_pairs cfg answers k ps s)) = handles s"
proof (induction ps arbitrary: k s)
  case Nil
  then show ?case by simp
next
  case (Cons p ps)
  obtain location category where p: "p = (location, category)" by (cases p)
  show ?case
  proof (cases "run_pair cfg (answers k) location category s")
    case (Inl a)
    with run_pair_handles [of cfg "answers k" location category s] show ?thesis
      by (cases a) (simp add: p)
  next
    case (Inr s1)
    with run_pair_handles [of cfg "answers k" location category s] Cons.IH [of "Suc k" s1]
    show ?thesis by (simp add: p)
  qed
qed

lemma update_scrape_run_handles:
  "handles (final_state (update_scrape_run ok rid status error_log s)) = handles s"
  by (simp add: update_scrape_run_def Let_def)

lemma crawl_handles:
  "handles (final_state (crawl env cfg rid pairs s)) = handles s"
proof -
  have a: "handles (final_state (run_pairs cfg (web env) 0 pairs s)) = handles s"
    by (rule run_pairs_handles)
  show ?thesis
  proof (cases "run_pairs cfg (web env) 0 pairs s")
    case (Inl x)
    obtain e s1 where x: "x = (e, s1)" by (cases x)
    from a Inl x have h1: "handles s1 = handles s" by simp
    from update_scrape_run_handles [of "fail_run_ok env" rid "''failed''" "Some ''error''"
        "s1\<lparr>logs := logs s1 @ [LogError ''Scraping error'']\<rparr>"] h1
    show ?thesis
      by (auto simp: crawl_def Inl x Let_def split: sum.splits)
  next
    case (Inr s1)
    from a Inr have h1: "handles s1 = handles s" by simp
    show ?thesis
    proof (cases "update_scrape_run (complete_run_ok env) rid ''completed'' None s1")
      case (Inl y)
      obtain e s2 where y: "y = (e, s2)" by (cases y)
      from update_scrape_run_handles [of "complete_run_ok env" rid "''completed''" None s1] Inl y h1
      have h2: "handles s2 = handles s" by simp
      from update_scrape_run_handles [of "fail_run_ok env" rid "''failed''" "Some ''error''"
          "s2\<lparr>logs := logs s2 @ [LogError ''Scraping error'']\<rparr>"] h2
      show ?thesis
        by (auto simp: crawl_def Inr Inl y Let_def split: sum.splits)
    next
      case (Inr s2)
      from update_scrape_run_handles [of "complete_run_ok env" rid "''completed''" None s1] Inr h1
      show ?thesis
        by (simp add: crawl_def \<open>run_pairs cfg (web env) 0 pairs s = Inr s1\<close> Inr)
    qed
  qed
qed

lemma release_frame:
  "handle_of c' (final_state (release fs c s)) =
     (if c' = c \<and> c \<notin> set fs \<and> handle_of c s \<noteq> Absent then Released else handle_of c' s)"
  by (cases c; cases c') (simp_all add: release_def Let_def)

lemma cleanup_live:
  assumes "handles s = (Live, Live, Live, Live)"
  shows "page_h (final_state (cleanup fs s)) = (if Close_page \<in> set fs then Live else Released)"
    and "context_h (final_state (cleanup fs s)) =
           (if Close_page \<in> set fs \<or> Close_context \<in> set fs then Live else Released)"
    and "browser_h (final_state (cleanup fs s)) =
           (if Close_page \<in> set fs \<or> Close_context \<in> set fs \<or> Close_browser \<in> set fs
            then Live else Released)"
    and "db_conn_h (final_state (cleanup fs s)) =
           (if Close_page \<in> set fs \<or> Close_context \<in> set fs \<or> Close_browser \<in> set fs
               \<or> Close_db \<in> set fs
            then Live else Released)"
    and "Ev_release Close_page \<in> set (trace (final_state (cleanup fs s)))"
  using assms
  by (simp_all add: cleanup_def release_def handles_def Let_def)

lemma final_state_finally_cleanup:
  "final_state (finally_cleanup fs r) = final_state (cleanup fs (final_state r))"
  by (cases r) (auto simp: finally_cleanup_def split: sum.splits)

lemma run_scrape_started:
  assumes "launch_ok env" "connect_ok env" "create_run_ok env"
  shows "\<exists>r :: (error \<times> scraper) + scraper.
            final_state (run_scrape env mode locations categories s)
               = final_state (cleanup (release_faults env) (final_state r))
            \<and> handles (final_state r) = (Live, Live, Live, Live)"
proof -
  let ?s3 = "s\<lparr>browser_h := Live, context_h := Live, page_h := Live, db_conn_h := Live,
               logs := logs s @ [LogInfo ''Database connection established'',
                                 LogInfo ''Starting scrape'']\<rparr>"
  obtain rid s4 where c: "create_scrape_run True ?s3 = Inr (rid, s4)"
    and h4: "handles s4 = (Live, Live, Live, Live)"
    by (simp add: create_scrape_run_def Let_def handles_def)
  let ?r = "crawl env (SCRAPE_MODES mode) rid
              (pairs_of (effective (mode_locations (SCRAPE_MODES mode)) locations LOCATIONS)
                        (effective (mode_categories (SCRAPE_MODES mode)) categories CATEGORIES)) s4"
  have eq: "run_scrape env mode locations categories s = finally_cleanup (release_faults env) ?r"
    using assms c by (simp add: run_scrape_def Let_def)
  have hh: "handles (final_state ?r) = (Live, Live, Live, Live)"
    using crawl_handles h4 by simp
  show ?thesis
    by (rule exI [of _ ?r]) (simp add: eq hh final_state_finally_cleanup)
qed

text \<open>
  Claim C3 (as amended). Once the browser, the database connection and the run record
  are set up, every way out of \<open>run_scrape\<close> (a normal end or an exception of the
  crawl) goes through \<open>cleanup\<close>. It closes page, context, browser and database
  connection in this order and stops at the first close that raises: the handles before
  it are released, that handle and the later ones are not.
\<close>

theorem cleanup_after_crawl:
  assumes "launch_ok env" "connect_ok env" "create_run_ok env"
    and "s' = final_state (run_scrape env mode locations categories s)"
    and "fs = release_faults env"
  shows "Ev_release Close_page \<in> set (trace s')
       \<and> page_h s' = (if Close_page \<in> set fs then Live else Released)
       \<and> context_h s' = (if Close_page \<in> set fs \<or> Close_context \<in> set fs then Live else Released)
       \<and> browser_h s' =
           (if Close_page \<in> set fs \<or> Close_context \<in> set fs \<or> Close_browser \<in> set fs
            then Live else Released)
       \<and> db_conn_h s' =
           (if Close_page \<in> set fs \<or> Close_context \<in> set fs \<or> Close_browser \<in> set fs
               \<or> Close_db \<in> set fs
            then Live else Released)"
proof -
  from run_scrape_started [OF assms(1-3), of mode locations categories s]
  obtain r :: "(error \<times> scraper) + scraper" where
    r: "s' = final_state (cleanup fs (final_state r))"
    and h: "handles (final_state r) = (Live, Live, Live, Live)"
    unfolding assms(4,5) by blast
  show ?thesis
    unfolding r using cleanup_live [OF h, of fs] by simp
qed

lemma stormy_raises: "isl (run_scrape stormy_run ''debug'' None None fresh_scraper)"
  by (simp add: run_scrape_def stormy_run_def SCRAPE_MODES_def Let_def effective_def
      LOCATIONS_def CATEGORIES_def pairs_of_def create_scrape_run_def crawl_def run_pair_def
      search_businesses_def search_body_def stormy_query_def check_session_break_def
      REQUESTS_PER_SESSION_def polite_delay_def extract_businesses_from_page_def
      List.map_filter_def extract_listing_def sample_listing_def save_business_def
      upsert_body_def raises_def update_scrape_run_def finally_cleanup_def cleanup_def
      release_def fresh_scraper_def split: sum.splits prod.splits)

theorem cleanup_after_crawl_witness:
  "isl (run_scrape stormy_run ''debug'' None None fresh_scraper)
   \<and> Ev_release Close_page
        \<in> set (trace (final_state (run_scrape stormy_run ''debug'' None None fresh_scraper)))
   \<and> handles (final_state (run_scrape stormy_run ''debug'' None None fresh_scraper))
       = (Released, Released, Released, Released)"
proof -
  have "launch_ok stormy_run" "connect_ok stormy_run" "create_run_ok stormy_run"
    and fs: "release_faults stormy_run = []"
    by (simp_all add: stormy_run_def)
  from cleanup_after_crawl [OF this(1-3) refl refl, of "''debug''" None None fresh_scraper]
  show ?thesis
    by (simp add: fs handles_def stormy_raises)
qed

text \<open>
  The four closes are not independent: when closing the page raises, the exception
  leaves \<open>cleanup\<close> and neither context, browser nor connection is closed.
\<close>

theorem cleanup_stops_at_first_error:
  "cleanup [Close_page] fresh_scraper
     = Inl (ReleaseError Close_page, fresh_scraper\<lparr>trace := [Ev_release Close_page]\<rparr>)
   \<and> context_h (fresh_scraper\<lparr>trace := [Ev_release Close_page]\<rparr>) = Live
   \<and> browser_h (fresh_scraper\<lparr>trace := [Ev_release Close_page]\<rparr>) = Live
   \<and> db_conn_h (fresh_scraper\<lparr>trace := [Ev_release Close_page]\<rparr>) = Live"
  by (simp add: cleanup_def release_def fresh_scraper_def)

section \<open>Pacing\<close>

lemma check_session_break_events:
  "trace (check_session_break s) = trace s @ session_check_events s"
  by (simp add: check_session_break_trace session_check_events_def)

lemma check_session_break_count:
  "request_count (check_session_break s)
     = (if REQUESTS_PER_SESSION \<le> Suc (request_count s) then 0 else Suc (request_count s))"
  by (simp add: check_session_break_def session_break_def Let_def)

lemma polite_delay_count: "request_count (polite_delay s) = request_count s"
  by (simp add: polite_delay_def)

lemma polite_delay_events: "trace (polite_delay s) = trace s @ [Ev_polite_delay]"
  by (simp add: polite_delay_def)

text \<open>A round whose navigation returned, and a round whose navigation raised.\<close>

lemma round_returned:
  assumes "outcome_of e = Some Done"
  shows "foldl pace_step (Idle (request_count s)) (session_check_events s @ [e, Ev_polite_delay])
           = Idle (request_count (check_session_break s))"
  using assms by (simp add: session_check_events_def check_session_break_count)

lemma round_raised:
  assumes "outcome_of e = Some r" "r \<noteq> Done"
  shows "foldl pace_step (Idle (request_count s)) (session_check_events s @ [e])
           = Raised (request_count (check_session_break s))"
  using assms by (simp add: session_check_events_def check_session_break_count)

lemma paced_nil: "paced n [] n"
  by (simp add: paced_def)

lemma paced_round:
  "foldl pace_step (Idle n) r = Idle m \<Longrightarrow> paced m evs n' \<Longrightarrow> paced n (r @ evs) n'"
  by (simp add: paced_def)

lemma paced_raised:
  "foldl pace_step (Idle n) r = Raised m \<Longrightarrow> paced n r m"
  by (simp add: paced_def)

text \<open>
  What a paced list says of its navigations: one that returned is directly followed by
  the pause, and one that raised is the last event.
\<close>

lemma foldl_violated: "foldl pace_step Violated es = Violated"
  by (induction es) simp_all

lemma pace_step_returned:
  "outcome_of e = Some Done
     \<Longrightarrow> (\<exists>k. pace_step ph e = Navigated k) \<or> pace_step ph e = Violated"
  by (cases ph) auto

lemma pace_step_raised:
  "outcome_of e = Some r \<Longrightarrow> r \<noteq> Done
     \<Longrightarrow> (\<exists>k. pace_step ph e = Raised k) \<or> pace_step ph e = Violated"
  by (cases ph) auto

lemma paced_pause_follows:
  assumes "paced n (xs @ e # ys) n'" "outcome_of e = Some Done"
  shows "\<exists>zs. ys = Ev_polite_delay # zs"
proof (cases ys)
  case Nil
  with assms pace_step_returned [OF assms(2), of "foldl pace_step (Idle n) xs"]
  show ?thesis by (auto simp: paced_def)
next
  case (Cons y zs)
  show ?thesis
  proof (cases "y = Ev_polite_delay")
    case True
    with Cons show ?thesis by simp
  next
    case False
    with Cons assms(1) pace_step_returned [OF assms(2), of "foldl pace_step (Idle n) xs"]
    show ?thesis by (auto simp: paced_def foldl_violated)
  qed
qed

lemma paced_raise_ends:
  assumes "paced n (xs @ e # ys) n'" "outcome_of e = Some r" "r \<noteq> Done"
  shows "ys = []"
proof (cases ys)
  case Nil
  then show ?thesis .
next
  case (Cons y zs)
  with assms(1) pace_step_raised [OF assms(2,3), of "foldl pace_step (Idle n) xs"]
  show ?thesis by (auto simp: paced_def foldl_violated)
qed

lemma click_next_page_trace:
  "trace (final_state (click_next_page click s))
     = trace s @ session_check_events s @ [Ev_click_next click]"
  by (simp add: click_next_page_def Let_def check_session_break_events final_state_def)

lemma click_next_page_count:
  "request_count (final_state (click_next_page click s)) = request_count (check_session_break s)"
  by (simp add: click_next_page_def Let_def final_state_def)

lemma click_next_page_outcome:
  "click_next_page click s = Inl (e, s1) \<Longrightarrow> e = click \<and> click \<noteq> Done"
  "click_next_page click s = Inr s1 \<Longrightarrow> click = Done"
  by (auto simp: click_next_page_def Let_def split: if_splits)

lemma more_pages_paced:
  "\<exists>evs. trace (case more_pages mx n ch acc s of Inl (e, s') \<Rightarrow> s' | Inr (bs, s') \<Rightarrow> s')
            = trace s @ evs
        \<and> paced (request_count s) evs
            (request_count (case more_pages mx n ch acc s of
                              Inl (e, s') \<Rightarrow> s' | Inr (bs, s') \<Rightarrow> s'))"
proof (induction mx n ch acc s rule: more_pages.induct)
  case (1 mx page_count pg all_businesses s)
  then show ?case by (simp add: paced_nil)
next
  case (2 mx page_count pg click rest all_businesses s)
  show ?case
  proof (cases "page_count < mx")
    case False
    then show ?thesis by (simp add: paced_nil)
  next
    case True
    show ?thesis
    proof (cases "click_next_page click s")
      case (Inl a)
      obtain e s1 where a: "a = (e, s1)" by (cases a)
      from click_next_page_trace [of click s] Inl a
      have t1: "trace s1 = trace s @ session_check_events s @ [Ev_click_next click]"
        by (simp add: final_state_def)
      from click_next_page_count [of click s] Inl a
      have c1: "request_count s1 = request_count (check_session_break s)"
        by (simp add: final_state_def)
      from click_next_page_outcome(1) [of click s e s1] Inl a have "click \<noteq> Done" by simp
      then have "foldl pace_step (Idle (request_count s))
                   (session_check_events s @ [Ev_click_next click])
                 = Raised (request_count (check_session_break s))"
        by (intro round_raised [of _ click]) simp_all
      then have "paced (request_count s) (session_check_events s @ [Ev_click_next click])
                   (request_count s1)"
        unfolding c1 by (rule paced_raised)
      with t1 True Inl a show ?thesis by simp
    next
      case (Inr s1)
      from click_next_page_trace [of click s] Inr
      have t1: "trace s1 = trace s @ session_check_events s @ [Ev_click_next click]"
        by (simp add: final_state_def)
      from click_next_page_count [of click s] Inr
      have c1: "request_count s1 = request_count (check_session_break s)"
        by (simp add: final_state_def)
      from click_next_page_outcome(2) [OF Inr] have d: "click = Done" .
      have r: "foldl pace_step (Idle (request_count s))
                 (session_check_events s @ [Ev_click_next click, Ev_polite_delay])
               = Idle (request_count (polite_delay s1))"
        unfolding polite_delay_count c1 by (rule round_returned) (simp add: d)
      have t2: "trace (polite_delay s1)
                = trace s @ session_check_events s @ [Ev_click_next click, Ev_polite_delay]"
        by (simp add: polite_delay_events t1)
      show ?thesis
      proof (cases "extract_businesses_from_page (first_page rest)")
        case None
        from paced_round [OF r paced_nil]
        have "paced (request_count s)
                (session_check_events s @ [Ev_click_next click, Ev_polite_delay])
                (request_count (polite_delay s1))" by simp
        with True Inr None t2 show ?thesis by simp
      next
        case (Some more_businesses)
        let ?sf = "case more_pages mx (Suc page_count) rest (all_businesses @ more_businesses)
                          (polite_delay s1) of Inl (e, s') \<Rightarrow> s' | Inr (bs, s') \<Rightarrow> s'"
        from "2.IH" [OF True Inr refl Some] obtain evs where
          evs: "trace ?sf = trace (polite_delay s1) @ evs"
               "paced (request_count (polite_delay s1)) evs (request_count ?sf)"
          by blast
        from paced_round [OF r evs(2)]
        have p: "paced (request_count s)
                   ((session_check_events s @ [Ev_click_next click, Ev_polite_delay]) @ evs)
                   (request_count ?sf)" .
        have t: "trace ?sf
                 = trace s @ (session_check_events s @ [Ev_click_next click, Ev_polite_delay]) @ evs"
          unfolding evs(1) t2 by simp
        have eq: "(case more_pages mx page_count (Next_page pg click rest) all_businesses s of
                     Inl (e, s') \<Rightarrow> s' | Inr (bs, s') \<Rightarrow> s') = ?sf"
          using True Inr Some by simp
        show ?thesis unfolding eq using t p by blast
      qed
    qed
  qed
qed

text \<open>
  Claim C5 (as amended). The events that a query adds to the trace are rounds of
  pacing, read from the request counter of the scraper before the query to its counter
  afterwards: each navigation of the query (the search request, each click on the next
  button) directly follows the session check of its round, a navigation that returns
  is directly followed by the pause, and a navigation that raises is the last event of
  the query. The first round is the session check and the search request. So the pause
  comes after each navigation, not before it; what precedes a navigation is the session
  check.
\<close>

theorem pause_follows_navigation:
  "\<exists>evs. trace (snd (search_businesses cfg env location category s)) = trace s @ evs
        \<and> paced (request_count s) evs
            (request_count (snd (search_businesses cfg env location category s)))
        \<and> (\<exists>rest. evs = session_check_events s
                     @ Ev_goto (search_query location category) (goto_result env) # rest)"
proof -
  let ?q = "search_query location category"
  let ?g = "Ev_goto ?q (goto_result env)"
  let ?s0 = "s\<lparr>logs := logs s @ [LogInfo ''Searching'']\<rparr>"
  let ?s2 = "(check_session_break ?s0)\<lparr>trace := trace (check_session_break ?s0) @ [?g]\<rparr>"
  let ?s3 = "polite_delay ?s2"
  let ?out = "snd (search_businesses cfg env location category s)"
  have se: "session_check_events ?s0 = session_check_events s"
    by (simp add: session_check_events_def)
  have tc: "trace (check_session_break ?s0) = trace s @ session_check_events s"
    by (simp add: check_session_break_events se)
  have cc: "request_count (check_session_break ?s0) = request_count (check_session_break s)"
    by (simp add: check_session_break_count)
  have t2: "trace ?s2 = trace s @ session_check_events s @ [?g]"
    by (simp add: tc)
  have c2: "request_count ?s2 = request_count (check_session_break s)"
    by (simp add: cc)
  have t3: "trace ?s3 = trace s @ session_check_events s @ [?g, Ev_polite_delay]"
    by (simp add: polite_delay_events tc)
  have c3: "request_count ?s3 = request_count (check_session_break s)"
    by (simp add: polite_delay_count cc)
  show ?thesis
  proof (cases "goto_result env = Done")
    case False
    then have o: "?out = ?s2\<lparr>logs := logs ?out\<rparr>"
      by (cases "goto_result env") (simp_all add: search_businesses_def search_body_def Let_def)
    have to: "trace ?out = trace s @ session_check_events s @ [?g]"
      by (subst o) (simp add: tc)
    have co: "request_count ?out = request_count (check_session_break s)"
      by (subst o) (simp add: cc)
    have "foldl pace_step (Idle (request_count s)) (session_check_events s @ [?g])
            = Raised (request_count (check_session_break s))"
      using False by (intro round_raised [of _ "goto_result env"]) simp_all
    then have "paced (request_count s) (session_check_events s @ [?g]) (request_count ?out)"
      unfolding co by (rule paced_raised)
    with to show ?thesis by blast
  next
    case goto: True
    have r: "foldl pace_step (Idle (request_count s))
               (session_check_events s @ [?g, Ev_polite_delay])
             = Idle (request_count ?s3)"
      unfolding c3 by (rule round_returned) (simp add: goto)
    let ?sf = "case more_pages (max_pages cfg) 1 (result_pages env)
                      (the (extract_businesses_from_page (first_page (result_pages env)))) ?s3 of
                 Inl (e, s') \<Rightarrow> s' | Inr (bs, s') \<Rightarrow> s'"
    show ?thesis
    proof (cases "marker_appears env
                  \<and> extract_businesses_from_page (first_page (result_pages env)) \<noteq> None")
      case False
      with goto have o: "?out = ?s3\<lparr>logs := logs ?out\<rparr>"
        by (auto simp: search_businesses_def search_body_def Let_def)
      have to: "trace ?out = trace s @ session_check_events s @ [?g, Ev_polite_delay]"
        by (subst o) (simp add: polite_delay_events tc)
      have co: "request_count ?out = request_count ?s3"
        by (subst o) simp
      from paced_round [OF r paced_nil]
      have "paced (request_count s) (session_check_events s @ [?g, Ev_polite_delay])
              (request_count ?out)"
        unfolding co by simp
      with to show ?thesis by auto
    next
      case True
      then obtain businesses where
        b: "extract_businesses_from_page (first_page (result_pages env)) = Some businesses"
        by blast
      from more_pages_paced [of "max_pages cfg" 1 "result_pages env" businesses ?s3]
      obtain evs where
        evs: "trace ?sf = trace ?s3 @ evs" "paced (request_count ?s3) evs (request_count ?sf)"
        unfolding b option.sel by blast
      have o: "?out = ?sf\<lparr>logs := logs ?out\<rparr>"
        using goto True b
        by (auto simp: search_businesses_def search_body_def Let_def
            split: sum.splits outcome.splits prod.splits)
      have "trace ?out = trace ?sf"
        by (subst o) simp
      then have to:
        "trace ?out = trace s @ (session_check_events s @ [?g, Ev_polite_delay]) @ evs"
        unfolding evs(1) t3 by simp
      have co: "request_count ?out = request_count ?sf"
        by (subst o) simp
      from paced_round [OF r evs(2)]
      have "paced (request_count s) ((session_check_events s @ [?g, Ev_polite_delay]) @ evs)
              (request_count ?out)"
        unfolding co .
      with to show ?thesis by auto
    qed
  qed
qed

theorem pause_follows_navigation_witness:
  "\<exists>evs. trace (snd (search_businesses (SCRAPE_MODES ''debug'') two_page_query ''Joliet, IL''
                       ''plumber'' fresh_scraper)) = evs
        \<and> paced 0 evs
            (request_count (snd (search_businesses (SCRAPE_MODES ''debug'') two_page_query
                                   ''Joliet, IL'' ''plumber'' fresh_scraper)))
        \<and> (\<exists>rest. evs = Ev_goto ''plumber near Joliet, IL'' Done # rest)"
  using pause_follows_navigation [of "SCRAPE_MODES ''debug''" two_page_query "''Joliet, IL''"
      "''plumber''" fresh_scraper]
  by (simp add: fresh_scraper_def session_check_events_def REQUESTS_PER_SESSION_def
      search_query_def two_page_query_def)

text \<open>
  The first navigation of a fresh scraper is its first event: no pause precedes it.
\<close>

theorem navigation_before_pause:
  "trace (snd (search_businesses (SCRAPE_MODES ''debug'') two_page_query ''Joliet, IL''
                 ''plumber'' fresh_scraper))
     = [Ev_goto ''plumber near Joliet, IL'' Done, Ev_polite_delay, Ev_click_next Done,
        Ev_polite_delay]"
  by (simp add: search_businesses_def search_body_def two_page_query_def SCRAPE_MODES_def
      Let_def check_session_break_def REQUESTS_PER_SESSION_def polite_delay_def search_query_def
      extract_businesses_from_page_def List.map_filter_def click_next_page_def
      fresh_scraper_def)

text \<open>A reading that skips a pause, or a session check that is due, is not paced.\<close>

lemma paced_examples:
  "\<not> paced 0 [Ev_goto ''q'' Done, Ev_click_next Done, Ev_polite_delay] 2"
  "\<not> paced 0 [Ev_goto ''q'' Done] 1"
  "\<not> paced 9 [Ev_goto ''q'' Done, Ev_polite_delay] 10"
  "paced 9 [Ev_session_break, Ev_goto ''q'' Done, Ev_polite_delay] 0"
  "\<not> paced 0 [Ev_polite_delay, Ev_goto ''q'' Done, Ev_polite_delay] 1"
  "paced 0 [Ev_goto ''q'' TimedOut] 1"
  "\<not> paced 0 [Ev_goto ''q'' TimedOut, Ev_polite_delay] 1"
  by (simp_all add: paced_def REQUESTS_PER_SESSION_def)

section \<open>The per-listing loop\<close>

lemma finish_upsert_trace:
  "trace (final_state (finish_upsert fs b s)) = trace s"
  by (simp add: finish_upsert_def Let_def)

lemma upsert_body_trace:
  "trace (final_state (upsert_body fs now b location category s)) = trace s"
  by (simp add: upsert_body_def finish_upsert_trace split: option.splits)

lemma save_business_trace:
  "trace (final_state (save_business fs now b location category s)) = trace s"
proof (cases "upsert_body fs now b location category
                (s\<lparr>logs := logs s @ [LogInfo ''Attempting to save'']\<rparr>)")
  case (Inl a)
  with upsert_body_trace [of fs now b location category
      "s\<lparr>logs := logs s @ [LogInfo ''Attempting to save'']\<rparr>"]
  show ?thesis by (cases a) (simp add: save_business_def Let_def)
next
  case (Inr s1)
  with upsert_body_trace [of fs now b location category
      "s\<lparr>logs := logs s @ [LogInfo ''Attempting to save'']\<rparr>"]
  show ?thesis by (simp add: save_business_def)
qed

lemma visit_listing_trace:
  "trace (visit_listing v i element location category s) = trace s
   \<or> trace (visit_listing v i element location category s) = trace s @ [Ev_click_listing]
   \<or> trace (visit_listing v i element location category s)
        = trace s @ [Ev_click_listing, Ev_go_back]"
proof (cases "click_ok v")
  case False
  then show ?thesis by (simp add: visit_listing_def Let_def)
next
  case True
  let ?s2 = "s\<lparr>logs := logs s @ [LogInfo ''Processing business''],
               trace := trace s @ [Ev_click_listing]\<rparr>"
  show ?thesis
  proof (cases "extract_business_details (detail v) (business_name_of i element)")
    case None
    with True show ?thesis by (simp add: visit_listing_def Let_def)
  next
    case (Some b)
    let ?r = "save_business (visit_faults v) (visit_time v) (b\<lparr>gbp_url := Some (page_url v)\<rparr>)
                location category ?s2"
    have t: "trace (final_state ?r) = trace s @ [Ev_click_listing]"
      by (simp add: save_business_trace)
    show ?thesis
    proof (cases ?r)
      case (Inl a)
      with t True Some show ?thesis
        by (cases a) (simp add: visit_listing_def Let_def)
    next
      case (Inr s3)
      with t True Some show ?thesis
        by (simp add: visit_listing_def Let_def)
    qed
  qed
qed

lemma guarded_accesses_visit:
  assumes "evs = [] \<or> evs = [Ev_click_listing] \<or> evs = [Ev_click_listing, Ev_go_back]"
  shows "guarded_accesses (evs @ es) = guarded_accesses es"
    and "filter is_access (evs @ es) = filter is_access es"
    and "Ev_access j \<in> set (evs @ es) \<longleftrightarrow> Ev_access j \<in> set es"
  using assms by auto

lemma listing_loop_trace:
  "\<exists>evs. trace (listing_loop pg location category idx s) = trace s @ evs
        \<and> guarded_accesses evs
        \<and> length (filter is_access evs) \<le> length idx
        \<and> (\<forall>j. Ev_access j \<in> set evs \<longrightarrow> j \<in> set idx)"
proof (induction idx arbitrary: s)
  case Nil
  then show ?case by simp
next
  case (Cons i rest)
  show ?case
  proof (cases "current_elements (visits pg i)")
    case None
    from Cons.IH [of "s\<lparr>logs := logs s @ [LogError ''Error processing business'']\<rparr>"]
    obtain evs where "trace (listing_loop pg location category rest
          (s\<lparr>logs := logs s @ [LogError ''Error processing business'']\<rparr>)) = trace s @ evs"
      "guarded_accesses evs" "length (filter is_access evs) \<le> length rest"
      "\<forall>j. Ev_access j \<in> set evs \<longrightarrow> j \<in> set rest"
      by auto
    with None show ?thesis by auto
  next
    case (Some elements)
    show ?thesis
    proof (cases "i < length elements")
      case False
      with Some show ?thesis by (simp add: Let_def)
    next
      case True
      let ?s2 = "s\<lparr>trace := trace s @ [Ev_requery (length elements), Ev_access i]\<rparr>"
      let ?s3 = "visit_listing (visits pg i) i (elements ! i) location category ?s2"
      have step: "listing_loop pg location category (i # rest) s
                    = listing_loop pg location category rest ?s3"
        using Some True by (simp add: Let_def py_index_def)
      from visit_listing_trace [of "visits pg i" i "elements ! i" location category ?s2]
      obtain vs where vs: "trace ?s3 = trace ?s2 @ vs"
        "vs = [] \<or> vs = [Ev_click_listing] \<or> vs = [Ev_click_listing, Ev_go_back]"
        by auto
      from Cons.IH [of ?s3] obtain evs where
        evs: "trace (listing_loop pg location category rest ?s3) = trace ?s3 @ evs"
        "guarded_accesses evs" "length (filter is_access evs) \<le> length rest"
        "\<forall>j. Ev_access j \<in> set evs \<longrightarrow> j \<in> set rest"
        by auto
      let ?all = "Ev_requery (length elements) # Ev_access i # vs @ evs"
      have "trace (listing_loop pg location category (i # rest) s) = trace s @ ?all"
        unfolding step evs(1) vs(1) by simp
      moreover have "guarded_accesses ?all"
        using True evs(2) guarded_accesses_visit(1) [OF vs(2)] by simp
      moreover have "length (filter is_access ?all) \<le> length (i # rest)"
        using evs(3) guarded_accesses_visit(2) [OF vs(2)] by simp
      moreover have "\<forall>j. Ev_access j \<in> set ?all \<longrightarrow> j \<in> set (i # rest)"
        using evs(4) guarded_accesses_visit(3) [OF vs(2)] by auto
      ultimately show ?thesis by blast
    qed
  qed
qed

text \<open>
  Claim C6. On one result page the loop reads at most 20 elements, all at indices below
  20; every read directly follows a re-query of the collection and is at an index below
  the length of the collection just returned, so no read is out of range; and when the
  index is at or beyond that length the loop ends there, without a read and without
  going on to the remaining indices.
\<close>

theorem listing_loop_guarded:
  "(\<exists>evs. trace (process_page pg location category s) = trace s @ evs
         \<and> guarded_accesses evs
         \<and> length (filter is_access evs) \<le> 20
         \<and> (\<forall>j. Ev_access j \<in> set evs \<longrightarrow> j < 20))
   \<and> (\<forall>i rest elements.
         current_elements (visits pg i) = Some elements \<and> length elements \<le> i \<longrightarrow>
           listing_loop pg location category (i # rest) s
             = s\<lparr>trace := trace s @ [Ev_requery (length elements)]\<rparr>)"
proof -
  let ?idx = "[0..<min 20 (business_links pg)]"
  let ?s0 = "s\<lparr>logs := logs s @ [LogInfo ''Found business elements'']\<rparr>"
  from listing_loop_trace [of pg location category ?idx ?s0] obtain evs where
    evs: "trace (listing_loop pg location category ?idx ?s0) = trace ?s0 @ evs"
    "guarded_accesses evs" "length (filter is_access evs) \<le> length ?idx"
    "\<forall>j. Ev_access j \<in> set evs \<longrightarrow> j \<in> set ?idx"
    by blast
  have "trace (process_page pg location category s) = trace s @ evs"
    using evs(1) by (simp add: process_page_def)
  moreover have "length (filter is_access evs) \<le> 20"
    using evs(3) by simp
  moreover have "\<forall>j. Ev_access j \<in> set evs \<longrightarrow> j < 20"
    using evs(4) by auto
  ultimately have first: "\<exists>evs. trace (process_page pg location category s) = trace s @ evs
         \<and> guarded_accesses evs
         \<and> length (filter is_access evs) \<le> 20
         \<and> (\<forall>j. Ev_access j \<in> set evs \<longrightarrow> j < 20)"
    using evs(2) by blast
  show ?thesis
    using first by (auto simp: Let_def)
qed

theorem listing_loop_guarded_witness:
  "trace (process_page shrinking_page ''Joliet, IL'' ''business'' fresh_scraper)
     = [Ev_requery 30, Ev_access 0, Ev_click_listing, Ev_go_back,
        Ev_requery 30, Ev_access 1, Ev_click_listing, Ev_go_back,
        Ev_requery 2]
   \<and> guarded_accesses (trace (process_page shrinking_page ''Joliet, IL'' ''business''
                                fresh_scraper))
   \<and> length (filter is_access (trace (process_page shrinking_page ''Joliet, IL'' ''business''
                                        fresh_scraper))) \<le> 20"
proof -
  have t: "trace (process_page shrinking_page ''Joliet, IL'' ''business'' fresh_scraper)
     = [Ev_requery 30, Ev_access 0, Ev_click_listing, Ev_go_back,
        Ev_requery 30, Ev_access 1, Ev_click_listing, Ev_go_back,
        Ev_requery 2]"
    by code_simp
  from listing_loop_guarded [of shrinking_page "''Joliet, IL''" "''business''" fresh_scraper]
  obtain evs where "trace (process_page shrinking_page ''Joliet, IL'' ''business'' fresh_scraper)
      = trace fresh_scraper @ evs" "guarded_accesses evs" "length (filter is_access evs) \<le> 20"
    by blast
  then show ?thesis
    using t by (simp add: fresh_scraper_def)
qed

section \<open>The name of a listing\<close>

lemma extract_listing_named:
  "extract_listing l = Some b \<Longrightarrow> truthy (name b) \<and> name b = l_name l"
  by (auto simp: extract_listing_def Let_def split: if_splits)

lemma extract_businesses_from_page_named:
  "extract_businesses_from_page pg = Some bs \<Longrightarrow> b \<in> set bs \<Longrightarrow> truthy (name b)"
proof -
  assume e: "extract_businesses_from_page pg = Some bs" and b: "b \<in> set bs"
  let ?ls = "if rllt_details pg = [] then data_hveid pg else rllt_details pg"
  from e have "bs = List.map_filter extract_listing ?ls"
    by (simp add: extract_businesses_from_page_def split: if_splits)
  with b obtain l where "extract_listing l = Some b"
    unfolding List.map_filter_def by auto
  then show ?thesis using extract_listing_named by blast
qed

lemma more_pages_named:
  "more_pages mx n ch acc s = Inr (bs, s') \<Longrightarrow> \<forall>b \<in> set acc. truthy (name b)
     \<Longrightarrow> \<forall>b \<in> set bs. truthy (name b)"
proof (induction mx n ch acc s rule: more_pages.induct)
  case (1 mx page_count pg all_businesses s)
  then show ?case by simp
next
  case (2 mx page_count pg click rest all_businesses s)
  show ?case
  proof (cases "page_count < mx")
    case False
    with "2.prems" show ?thesis by simp
  next
    case True
    with "2.prems"(1) obtain s1 more_businesses where
      c: "click_next_page click s = Inr s1"
      and e: "extract_businesses_from_page (first_page rest) = Some more_businesses"
      and r: "more_pages mx (Suc page_count) rest (all_businesses @ more_businesses)
                (polite_delay s1) = Inr (bs, s')"
      by (auto simp: Let_def split: sum.splits option.splits)
    have "\<forall>b \<in> set (all_businesses @ more_businesses). truthy (name b)"
      using "2.prems"(2) extract_businesses_from_page_named [OF e] by auto
    from "2.IH" [OF True c refl e r this] show ?thesis .
  qed
qed

lemma search_businesses_named:
  "b \<in> set (fst (search_businesses cfg env location category s)) \<Longrightarrow> truthy (name b)"
proof -
  assume b: "b \<in> set (fst (search_businesses cfg env location category s))"
  let ?s0 = "s\<lparr>logs := logs s @ [LogInfo ''Searching'']\<rparr>"
  show ?thesis
  proof (cases "search_body cfg env location category ?s0")
    case (Inl a)
    obtain e s1 where "a = (e, s1)" by (cases a)
    with Inl b show ?thesis
      by (cases e) (simp_all add: search_businesses_def)
  next
    case (Inr x)
    obtain bs s1 where x: "x = (bs, s1)" by (cases x)
    with Inr b have bin: "b \<in> set bs" by (simp add: search_businesses_def)
    show ?thesis
    proof (cases "goto_result env = Done \<and> marker_appears env")
      case False
      with Inr x bin show ?thesis
        by (auto simp: search_body_def Let_def split: if_splits)
    next
      case True
      with Inr x obtain businesses s4 where
        e: "extract_businesses_from_page (first_page (result_pages env)) = Some businesses"
        and m: "more_pages (max_pages cfg) 1 (result_pages env) businesses
                  (polite_delay ((check_session_break ?s0)
                     \<lparr>trace := trace (check_session_break ?s0)
                          @ [Ev_goto (search_query location category) (goto_result env)]\<rparr>))
                = Inr (bs, s4)"
        by (auto simp: search_body_def Let_def split: option.splits sum.splits)
      from more_pages_named [OF m] extract_businesses_from_page_named [OF e] bin
      show ?thesis by blast
    qed
  qed
qed

text \<open>A save that meets no fault leaves a committed row with the record's name.\<close>

lemma update_row_name:
  assumes "identity_match b location r" "name b = Some n"
  shows "col_name (update_row now b r) = Some n"
proof (cases "truthy (gbp_url b)")
  case True
  then show ?thesis by (simp add: update_row_def assms(2))
next
  case False
  with assms have "sql_eq (col_name r) (Some n)"
    by (simp add: identity_match_def)
  then have "col_name r = Some n"
    by (cases "col_name r") simp_all
  with False show ?thesis by (simp add: update_row_def)
qed

lemma update_existing_member:
  assumes "r \<in> set rows" "identity_match b location r"
  shows "update_row now b r \<in> set (update_existing now b location rows)"
  unfolding update_existing_def set_map
  using assms by (intro image_eqI [where x = r]) simp_all

lemma save_business_row_named:
  assumes "name b = Some n"
  shows "\<exists>s' r. save_business [] now b location category s = Inr s'
              \<and> r \<in> set (committed (db s')) \<and> col_name r = Some n"
proof (cases "select_existing b location (working (db s))")
  case None
  let ?s' = "s\<lparr>db := commit (insert_new now b location category (db s)),
                  new_businesses_added := Suc (new_businesses_added s),
                  logs := logs s @ [LogInfo ''Attempting to save'', LogInfo ''Added new business''],
                  businesses_without_websites :=
                    (if has_website b then businesses_without_websites s
                     else Suc (businesses_without_websites s))\<rparr>"
  let ?r = "new_row (db s) now b location category"
  have 1: "save_business [] now b location category s = Inr ?s'"
    by (rule save_business_insert [OF None])
  have 2: "?r \<in> set (committed (db ?s'))"
    by (simp add: commit_def insert_new_def)
  have 3: "col_name ?r = Some n"
    by (simp add: new_row_def assms)
  from 1 2 3 show ?thesis by blast
next
  case (Some r0)
  then have r0: "r0 \<in> set (working (db s))" "identity_match b location r0"
    by (auto simp: select_existing_def find_Some_iff)
  let ?s' = "s\<lparr>db := commit ((db s)\<lparr>working := update_existing now b location (working (db s))\<rparr>),
                  logs := logs s @ [LogInfo ''Attempting to save''],
                  businesses_without_websites :=
                    (if has_website b then businesses_without_websites s
                     else Suc (businesses_without_websites s))\<rparr>"
  let ?r = "update_row now b r0"
  from Some have "select_existing b location (working (db s)) \<noteq> None" by simp
  then have 1: "save_business [] now b location category s = Inr ?s'"
    by (rule save_business_update)
  have 2: "?r \<in> set (committed (db ?s'))"
    using update_existing_member [OF r0] by (simp add: commit_def)
  have 3: "col_name ?r = Some n"
    by (rule update_row_name [OF r0(2) assms])
  from 1 2 3 show ?thesis by blast
qed

text \<open>
  Claim C7 (as amended). In the listing-card scraper a listing whose name is missing or
  empty yields no record, so every record that a search returns has a name. In the
  click-through scraper a listing without a name node is not discarded: it is named
  \<open>Business\<close> followed by its position on the page, and when the click, the detail
  view and the save succeed, a row with that name is committed.
\<close>

theorem listing_name_policy:
  "(\<not> truthy (l_name l) \<longrightarrow> extract_listing l = None)
   \<and> (\<forall>b. b \<in> set (fst (search_businesses cfg env location category s)) \<longrightarrow> truthy (name b))
   \<and> (primary_name element = None \<and> secondary_name element = None
        \<and> click_ok v \<and> (main_panel (detail v) \<or> xpdopen_panel (detail v))
        \<and> visit_faults v = []
      \<longrightarrow> business_name_of i element = ''Business '' @ show_nat (Suc i)
        \<and> (\<exists>r. r \<in> set (committed (db (visit_listing v i element location category s')))
               \<and> col_name r = Some (''Business '' @ show_nat (Suc i))))"
proof (intro conjI impI allI)
  assume "\<not> truthy (l_name l)"
  then show "extract_listing l = None"
    by (auto simp: extract_listing_def Let_def)
next
  fix b assume "b \<in> set (fst (search_businesses cfg env location category s))"
  then show "truthy (name b)" by (rule search_businesses_named)
next
  assume a: "primary_name element = None \<and> secondary_name element = None
        \<and> click_ok v \<and> (main_panel (detail v) \<or> xpdopen_panel (detail v))
        \<and> visit_faults v = []"
  then show "business_name_of i element = ''Business '' @ show_nat (Suc i)"
    by (simp add: business_name_of_def)
next
  assume a: "primary_name element = None \<and> secondary_name element = None
        \<and> click_ok v \<and> (main_panel (detail v) \<or> xpdopen_panel (detail v))
        \<and> visit_faults v = []"
  let ?n = "''Business '' @ show_nat (Suc i)"
  have nm: "business_name_of i element = ?n"
    using a by (simp add: business_name_of_def)
  from a obtain b where b: "extract_business_details (detail v) ?n = Some b" "name b = Some ?n"
    by (auto simp: extract_business_details_def)
  let ?s2 = "s'\<lparr>logs := logs s' @ [LogInfo ''Processing business''],
               trace := trace s' @ [Ev_click_listing]\<rparr>"
  from save_business_row_named [of "b\<lparr>gbp_url := Some (page_url v)\<rparr>" ?n "visit_time v"
      location category ?s2] b(2)
  obtain s3 r where s3: "save_business [] (visit_time v) (b\<lparr>gbp_url := Some (page_url v)\<rparr>)
        location category ?s2 = Inr s3" "r \<in> set (committed (db s3))" "col_name r = Some ?n"
    by auto
  have "db (visit_listing v i element location category s') = db s3"
    using a nm b(1) s3(1) by (simp add: visit_listing_def Let_def)
  with s3(2,3) show "\<exists>r. r \<in> set (committed (db (visit_listing v i element location category s')))
               \<and> col_name r = Some ?n"
    by auto
qed

theorem listing_name_policy_witness:
  "extract_listing (sample_listing\<lparr>l_name := Some []\<rparr>) = None
   \<and> business_name_of 0 nameless_card = ''Business 1''
   \<and> (\<exists>r. r \<in> set (committed (db (visit_listing plain_visit 0 nameless_card ''Joliet, IL''
                                      ''business'' fresh_scraper)))
          \<and> col_name r = Some ''Business 1'')"
proof -
  have a: "\<not> truthy (l_name (sample_listing\<lparr>l_name := Some []\<rparr>))" by simp
  have c: "primary_name nameless_card = None \<and> secondary_name nameless_card = None
        \<and> click_ok plain_visit
        \<and> (main_panel (detail plain_visit) \<or> xpdopen_panel (detail plain_visit))
        \<and> visit_faults plain_visit = []"
    by (simp add: nameless_card_def plain_visit_def plain_detail_def)
  from listing_name_policy [where l = "sample_listing\<lparr>l_name := Some []\<rparr>"
      and element = nameless_card and v = plain_visit and i = 0 and location = "''Joliet, IL''"
      and category = "''business''" and s' = fresh_scraper] a c
  have "extract_listing (sample_listing\<lparr>l_name := Some []\<rparr>) = None"
    and "business_name_of 0 nameless_card = ''Business '' @ show_nat (Suc 0)"
    and "\<exists>r. r \<in> set (committed (db (visit_listing plain_visit 0 nameless_card ''Joliet, IL''
                                      ''business'' fresh_scraper)))
          \<and> col_name r = Some (''Business '' @ show_nat (Suc 0))"
    by blast+
  moreover have "show_nat (Suc 0) = ''1''" by code_simp
  ultimately show ?thesis by simp
qed

text \<open>
  A result page whose only listing has no name node: the run of the query commits a row
  for it, under the placeholder name.
\<close>

theorem placeholder_name_persisted:
  "map col_name (committed (db (search_businesses_and_save (SCRAPE_MODES ''test'') plain_query
                                  ''Joliet, IL'' ''business'' fresh_scraper)))
     = [Some ''Business 1'']"
  by code_simp

section \<open>The phone of the detail view\<close>

lemma search_skip:
  assumes "\<And>k p. k < length pre \<Longrightarrow> ends r (p, drop k (pre @ rest), None) = []"
  shows "search r p (pre @ rest) = search r (if pre = [] then p else Some (last pre)) rest"
  using assms
proof (induction pre arbitrary: p)
  case Nil
  then show ?case by simp
next
  case (Cons x pre)
  from Cons.prems [of 0 p] have e: "ends r (p, x # pre @ rest, None) = []" by simp
  have "\<And>k p. k < length pre \<Longrightarrow> ends r (p, drop k (pre @ rest), None) = []"
    using Cons.prems [of "Suc k" for k] by simp
  from Cons.IH [OF this, of "Some x"] e show ?case by simp
qed

lemma tel_link_prev: "ends tel_link (p, s, g) = ends tel_link (None, s, g)"
  by (cases s) (simp_all add: tel_link_def)

lemma tel_link_here:
  "search tel_link p (sample_tel_link @ post) = Some (Some dquote, post, Some ''+18155551234'')"
  by (simp add: sample_tel_link_def tel_link_def dquote_def Plus_def other_than_def)

text \<open>
  Claim C8 (as amended). When \<open>href="tel:+18155551234"\<close> is the first telephone link
  of the content (no match of the link pattern starts before it), the extracted phone is
  \<open>+18155551234\<close>: the text after \<open>tel:\<close>, with the plus sign and the country code.
\<close>

theorem first_tel_link_is_the_phone:
  assumes "\<forall>k < length pre. ends tel_link (None, drop k (pre @ sample_tel_link @ post), None) = []"
  shows "extract_phone (pre @ sample_tel_link @ post) = Some ''+18155551234''"
proof -
  have "\<And>k p. k < length pre
          \<Longrightarrow> ends tel_link (p, drop k (pre @ sample_tel_link @ post), None) = []"
    using assms tel_link_prev by metis
  from search_skip [OF this, of None]
  have "search tel_link None (pre @ sample_tel_link @ post)
          = Some (Some dquote, post, Some ''+18155551234'')"
    by (simp add: tel_link_here)
  then have "first_match phone_patterns (pre @ sample_tel_link @ post) = Some ''+18155551234''"
    by (simp add: phone_patterns_def re_search_def)
  then show ?thesis
    by (simp add: extract_phone_def py_strip_def is_space_def strip_tel_def)
qed

theorem first_tel_link_is_the_phone_witness:
  "extract_phone (''<a '' @ sample_tel_link @ ''>Call</a>'') = Some ''+18155551234''"
proof -
  have "\<forall>k < length ''<a ''.
          ends tel_link (None, drop k (''<a '' @ sample_tel_link @ ''>Call</a>''), None) = []"
    by (simp add: All_less_Suc numeral_3_eq_3 tel_link_def sample_tel_link_def dquote_def)
  from first_tel_link_is_the_phone [OF this] show ?thesis .
qed

text \<open>
  A content that contains the link after another telephone link: the phone is the
  earlier link's number.
\<close>

theorem earlier_tel_link_wins:
  "extract_phone two_tel_links = Some ''911''"
  by (simp add: two_tel_links_def sample_tel_link_def extract_phone_def phone_patterns_def
      re_search_def tel_link_def dquote_def Plus_def other_than_def py_strip_def is_space_def
      strip_tel_def)

section \<open>The rating\<close>

lemma ends_length:
  notes ends.simps(9) [simp del]
  shows "st' \<in> set (ends r st) \<Longrightarrow> length (fst (snd st')) \<le> length (fst (snd st))"
proof (induction r st arbitrary: st' rule: ends.induct)
  case (6 a b st)
  then obtain y where y: "y \<in> set (ends a st)" "st' \<in> set (ends b y)" by auto
  from "6.IH"(1) [OF y(1)] "6.IH"(2) [OF y(1) y(2)] show ?case by simp
next
  case (9 a p xs g)
  from "9.prems" [unfolded ends.simps(9)] consider "st' = (p, xs, g)"
    | y where "y \<in> set (ends a (p, xs, g))" "length (fst (snd y)) < length xs"
        "st' \<in> set (ends (Star a) y)"
    by auto
  then show ?case
  proof cases
    case 1
    then show ?thesis by simp
  next
    case 2
    from "9.IH"(2) [of y st'] 2 show ?thesis by simp
  qed
qed (auto split: if_splits)

lemma ends_group_free:
  notes ends.simps(9) [simp del]
  shows "group_free r \<Longrightarrow> st' \<in> set (ends r st) \<Longrightarrow> snd (snd st') = snd (snd st)"
proof (induction r st arbitrary: st' rule: ends.induct)
  case (6 a b st)
  then obtain y where y: "y \<in> set (ends a st)" "st' \<in> set (ends b y)" by auto
  from "6.IH"(1) [OF _ y(1)] "6.IH"(2) [OF y(1) _ y(2)] "6.prems"(1) show ?case by simp
next
  case (9 a p xs g)
  from "9.prems" [unfolded ends.simps(9)] consider "st' = (p, xs, g)"
    | y where "y \<in> set (ends a (p, xs, g))" "length (fst (snd y)) < length xs"
        "st' \<in> set (ends (Star a) y)"
    by auto
  then show ?case
  proof cases
    case 1
    then show ?thesis by simp
  next
    case 2
    from "9.IH"(1) [OF _ 2(1)] "9.IH"(2) [of y st'] 2 "9.prems"(1) show ?thesis by simp
  qed
qed (auto split: if_splits)

lemma search_member:
  "search r p s = Some m \<Longrightarrow> \<exists>p' s'. m \<in> set (ends r (p', s', None))"
proof (induction s arbitrary: p)
  case Nil
  then have "m \<in> set (ends r (p, [], None))"
    by (cases "ends r (p, [], None)") auto
  then show ?case by blast
next
  case (Cons x xs)
  show ?case
  proof (cases "ends r (p, x # xs, None)")
    case Nil
    with Cons.prems have "search r (Some x) xs = Some m" by simp
    from Cons.IH [OF this] show ?thesis .
  next
    case (Cons y ys)
    with Cons.prems have "m = y" by simp
    with Cons have "m \<in> set (ends r (p, x # xs, None))" by simp
    then show ?thesis by blast
  qed
qed

lemma scale10_nonneg: "0 \<le> q \<Longrightarrow> 0 \<le> scale10 q e"
  by (simp add: scale10_def)

lemma unsigned_float_nonneg:
  assumes "unsigned_float u = Some q"
  shows "0 \<le> q"
proof -
  obtain ip r1 where d1: "digit_run u = (ip, r1)" by (cases "digit_run u")
  obtain fp r2 where d2:
    "(case r1 of [] \<Rightarrow> ([], []) | c # r \<Rightarrow> if c = CHR ''.'' then digit_run r else ([], r1))
       = (fp, r2)"
    by (cases "case r1 of [] \<Rightarrow> ([], []) | c # r \<Rightarrow> if c = CHR ''.'' then digit_run r else ([], r1)")
  from assms obtain e where
    "q = scale10 (of_nat (digits_val ip) + of_nat (digits_val fp) / 10 ^ length fp) e"
    unfolding unsigned_float_def d1 prod.case d2
    by (auto split: if_splits option.splits)
  moreover have "(0::rat) \<le> of_nat (digits_val ip) + of_nat (digits_val fp) / 10 ^ length fp"
    by simp
  ultimately show ?thesis by (simp only: scale10_nonneg)
qed

lemma dropWhile_keeps_last:
  "\<not> is_c_space d \<Longrightarrow> \<exists>ys. dropWhile is_c_space (xs @ [d]) = ys @ [d]"
  by (induction xs) auto

lemma c_strip_head:
  assumes "\<not> is_c_space d"
  shows "\<exists>t'. c_strip (d # t) = d # t'"
proof -
  from dropWhile_keeps_last [OF assms, of "rev t"] obtain ys where
    "dropWhile is_c_space (rev t @ [d]) = ys @ [d]" by blast
  then have "c_strip (d # t) = d # rev ys"
    using assms by (simp add: c_strip_def)
  then show ?thesis by blast
qed

lemma digit_plain:
  assumes "is_digit d"
  shows "\<not> is_c_space d" "d \<noteq> CHR ''-''" "d \<noteq> CHR ''+''" "lower d \<noteq> CHR ''i''"
    "lower d \<noteq> CHR ''n''"
  using assms by (auto simp: is_digit_def is_c_space_def lower_def)

text \<open>\<open>float\<close> of a text that starts with a digit is a number, and not negative.\<close>

lemma py_float_digit:
  assumes "is_digit d" "py_float (d # t) = Some v"
  shows "\<exists>q. v = Nearest q \<and> 0 \<le> q"
proof -
  from c_strip_head [OF digit_plain(1) [OF assms(1)], of t] obtain t' where
    t': "c_strip (d # t) = d # t'" by blast
  from assms(2) t' digit_plain(2-5) [OF assms(1)]
  obtain q where "unsigned_float (d # t') = Some q" "v = Nearest q"
    by (auto simp: py_float_def Let_def)
  with unsigned_float_nonneg show ?thesis by blast
qed

text \<open>Group 1 of a match of the rating pattern starts with a digit.\<close>

lemma rating_capture:
  assumes "m \<in> set (ends (rating_pattern glyph) (p, s, None))" "group_free glyph"
  shows "\<exists>d t. snd (snd m) = Some (d # t) \<and> is_digit d"
proof -
  define A where "A = Star digit"
  define T where "T = seqs [Opt (Lit (CHR ''.'')), Star digit]"
  define G where "G = Seq (Seq digit A) T"
  define R where "R = seqs [spaces, alts [ilit ''star'', glyph]]"
  have rt: "rating_pattern glyph = Seq (Grp G) R"
    by (simp add: rating_pattern_def G_def A_def T_def R_def Plus_def)
  have gf: "group_free R"
    using assms(2) by (simp add: R_def spaces_def case_partners_def lower_def)
  from assms(1) have "m \<in> set (concat (map (ends R) (ends (Grp G) (p, s, None))))"
    by (simp only: rt ends.simps(6))
  then obtain y where y: "y \<in> set (ends (Grp G) (p, s, None))" "m \<in> set (ends R y)"
    by (auto simp only: set_concat set_map)
  from ends_group_free [OF gf y(2)] have cap: "snd (snd m) = snd (snd y)" .
  from y(1) have "y \<in> (\<lambda>st'. (fst st', fst (snd st'),
                  Some (take (length s - length (fst (snd st'))) s))) ` set (ends G (p, s, None))"
    by (simp only: ends.simps(10) set_map)
  then obtain z where z: "z \<in> set (ends G (p, s, None))"
    and yz: "snd (snd y) = Some (take (length s - length (fst (snd z))) s)"
    by auto
  from z have "z \<in> set (concat (map (ends T)
                  (concat (map (ends A) (ends digit (p, s, None))))))"
    by (simp only: G_def ends.simps(6))
  then obtain u v where u: "u \<in> set (ends digit (p, s, None))"
    and v: "v \<in> set (ends A u)" and zv: "z \<in> set (ends T v)"
    by (auto simp only: set_concat set_map)
  from u obtain d s' where s: "s = d # s'" "is_digit d" "u = (Some d, s', None)"
    by (cases s) (auto simp: digit_def split: if_splits)
  from ends_length [OF v] ends_length [OF zv] s(3)
  have "length (fst (snd z)) \<le> length s'" by simp
  then have "take (length s - length (fst (snd z))) s
               = d # take (length s' - length (fst (snd z))) s'"
    by (simp add: s(1) Suc_diff_le)
  with cap yz s(2) show ?thesis by simp
qed

lemma rating_by_nonneg:
  assumes "rating_by (rating_pattern glyph) content = Some v" "group_free glyph"
  shows "\<exists>q. v = Nearest q \<and> 0 \<le> q"
proof -
  from assms(1) obtain m where m: "search (rating_pattern glyph) None content = Some m"
    and f: "py_float (case snd (snd m) of None \<Rightarrow> [] | Some t \<Rightarrow> t) = Some v"
    by (auto simp: rating_by_def re_search_def split: option.splits)
  from search_member [OF m] obtain p' s' where
    "m \<in> set (ends (rating_pattern glyph) (p', s', None))"
    by blast
  from rating_capture [OF this assms(2)] obtain d t where
    "snd (snd m) = Some (d # t)" "is_digit d" by blast
  with f show ?thesis by (auto intro: py_float_digit)
qed

lemma rating_by_digitless:
  assumes "\<And>c. c \<in> set content \<Longrightarrow> \<not> is_digit c"
  shows "rating_by (rating_pattern glyph) content = None"
proof -
  have "search (rating_pattern glyph) p content = None" for p
    using assms
  proof (induction content arbitrary: p)
    case Nil
    then show ?case by (simp add: rating_pattern_def Plus_def digit_def)
  next
    case (Cons c cs)
    then have "\<not> is_digit c" by simp
    then have "ends (rating_pattern glyph) (p, c # cs, None) = []"
      by (simp add: rating_pattern_def Plus_def digit_def)
    with Cons show ?case by simp
  qed
  then show ?thesis
    by (simp add: rating_by_def re_search_def)
qed

lemma glyphs_group_free:
  "group_free (lit [CHR 0xE2, CHR 0x98, CHR 0x85])"
  "group_free (seqs [Alt (lit [CHR 0xC3, CHR 0xA2]) (lit [CHR 0xC3, CHR 0x82]),
                     lit [CHR 0xCB, CHR 0x9C, CHR 0xE2, CHR 0x80, CHR 0xA6]])"
  by simp_all

text \<open>
  Claim C9 (as amended). The rating of every extracted record is what \<open>float\<close> made
  of the rating token, with no check of its range, or absent; extraction returns in
  every case. In the click-through extractors (\<open>extract_business_details\<close> of
  \<open>general_business_scraper.py\<close> and of \<open>google_scraper_v2.py\<close>) the record's
  rating is the rating extracted from the page content: when present it is a number and
  not negative (nothing bounds it from above), and it is absent when the rating pattern
  does not match, in particular when the content is ASCII text without a digit. In the
  card scraper (\<open>extract_businesses_from_page\<close> of \<open>google_scraper.py\<close>) the record's
  rating is \<open>float\<close> of the first word of the rating node's label, whatever float that
  is, and absent when there is no node, no label, no word, or when the word does not
  parse.
\<close>

theorem rating_as_parsed:
  "(\<forall>v. extract_rating content = Some v \<or> extract_rating_v2 content = Some v
        \<longrightarrow> (\<exists>q. v = Nearest q \<and> 0 \<le> q))
   \<and> (re_search rating_token content = None \<longrightarrow> extract_rating content = None)
   \<and> (re_search rating_token_v2 content = None \<longrightarrow> extract_rating_v2 content = None)
   \<and> (ascii content \<and> (\<forall>c. c \<in> set content \<longrightarrow> \<not> is_digit c)
        \<longrightarrow> extract_rating content = None \<and> extract_rating_v2 content = None)
   \<and> (\<forall>b. extract_business_details dv business_name = Some b
          \<longrightarrow> rating b = extract_rating (page_content dv))
   \<and> (\<forall>b. extract_business_details_v2 dv found_website business_name = Some b
          \<longrightarrow> rating b = extract_rating_v2 (page_content dv))
   \<and> (\<forall>b. extract_listing l = Some b \<longrightarrow> rating b = card_rating l)
   \<and> card_rating l
       = (case l_rating_label l of
            Some (Some t) \<Rightarrow> (case py_words t of [] \<Rightarrow> None | w # _ \<Rightarrow> py_float w)
          | _ \<Rightarrow> None)"
proof (intro conjI allI impI)
  fix v assume "extract_rating content = Some v \<or> extract_rating_v2 content = Some v"
  then show "\<exists>q. v = Nearest q \<and> 0 \<le> q"
    unfolding extract_rating_def extract_rating_v2_def rating_token_def rating_token_v2_def
    using rating_by_nonneg glyphs_group_free by blast
next
  assume "re_search rating_token content = None"
  then show "extract_rating content = None" by (simp add: extract_rating_def rating_by_def)
next
  assume "re_search rating_token_v2 content = None"
  then show "extract_rating_v2 content = None"
    by (simp add: extract_rating_v2_def rating_by_def)
next
  assume a: "ascii content \<and> (\<forall>c. c \<in> set content \<longrightarrow> \<not> is_digit c)"
  then show "extract_rating content = None"
    unfolding extract_rating_def rating_token_def by (intro rating_by_digitless) blast
  from a show "extract_rating_v2 content = None"
    unfolding extract_rating_v2_def rating_token_v2_def by (intro rating_by_digitless) blast
next
  fix b assume "extract_business_details dv business_name = Some b"
  then show "rating b = extract_rating (page_content dv)"
    by (auto simp: extract_business_details_def split: if_splits)
next
  fix b assume "extract_business_details_v2 dv found_website business_name = Some b"
  then show "rating b = extract_rating_v2 (page_content dv)"
    by (auto simp: extract_business_details_v2_def split: if_splits)
next
  fix b assume "extract_listing l = Some b"
  then show "rating b = card_rating l"
    by (auto simp: extract_listing_def Let_def split: if_splits)
next
  show "card_rating l
       = (case l_rating_label l of
            Some (Some t) \<Rightarrow> (case py_words t of [] \<Rightarrow> None | w # _ \<Rightarrow> py_float w)
          | _ \<Rightarrow> None)"
    by (simp add: card_rating_def split: option.splits)
qed

theorem rating_as_parsed_witness:
  "extract_rating ''Rated 4.5 stars'' = Some (Nearest (9 / 2)) \<and> (0::rat) \<le> 9 / 2
   \<and> extract_rating_v2 ''Rated 4.5 stars'' = Some (Nearest (9 / 2))
   \<and> re_search rating_token ''no rating yet'' = None
   \<and> extract_rating ''no rating yet'' = None
   \<and> extract_rating_v2 ''no rating yet'' = None
   \<and> map_option rating (extract_business_details plain_detail ''Acme'')
       = Some (extract_rating (page_content plain_detail))
   \<and> map_option rating (extract_business_details_v2 plain_detail None ''Acme'')
       = Some (extract_rating_v2 (page_content plain_detail))
   \<and> map_option rating (extract_listing sample_listing) = Some (card_rating sample_listing)
   \<and> card_rating sample_listing = Some (Nearest (9 / 2))"
proof -
  note thm1 = rating_as_parsed [where content = "''Rated 4.5 stars''" and dv = plain_detail
      and business_name = "''Acme''" and found_website = None and l = sample_listing]
  note thm2 = rating_as_parsed [where content = "''no rating yet''" and dv = plain_detail
      and business_name = "''Acme''" and found_website = None and l = sample_listing]
  have a: "extract_rating ''Rated 4.5 stars'' = Some (Nearest (9 / 2))"
    by code_simp
  have a2: "extract_rating_v2 ''Rated 4.5 stars'' = Some (Nearest (9 / 2))"
    by code_simp
  have b: "ascii ''no rating yet'' \<and> (\<forall>c. c \<in> set ''no rating yet'' \<longrightarrow> \<not> is_digit c)"
    by (auto simp: ascii_def is_digit_def)
  have n: "re_search rating_token ''no rating yet'' = None"
    by code_simp
  have d: "extract_business_details plain_detail ''Acme'' \<noteq> None"
    "extract_business_details_v2 plain_detail None ''Acme'' \<noteq> None"
    by (simp_all add: extract_business_details_def extract_business_details_v2_def
        plain_detail_def)
  have l: "extract_listing sample_listing \<noteq> None"
    by (simp add: extract_listing_def sample_listing_def Let_def)
  have w: "py_words ''4.5 stars'' = [''4.5'', ''stars'']"
    by code_simp
  have f: "py_float ''4.5'' = Some (Nearest (9 / 2))"
    by code_simp
  from thm1 a have "(0::rat) \<le> 9 / 2" by blast
  moreover from thm2 b
  have "extract_rating ''no rating yet'' = None" "extract_rating_v2 ''no rating yet'' = None"
    by blast+
  moreover from thm1 d(1)
  have "map_option rating (extract_business_details plain_detail ''Acme'')
          = Some (extract_rating (page_content plain_detail))"
    by auto
  moreover from thm1 d(2)
  have "map_option rating (extract_business_details_v2 plain_detail None ''Acme'')
          = Some (extract_rating_v2 (page_content plain_detail))"
    by auto
  moreover from thm1 l
  have "map_option rating (extract_listing sample_listing) = Some (card_rating sample_listing)"
    by auto
  moreover have "card_rating sample_listing = Some (Nearest (9 / 2))"
  proof -
    from thm1 have "card_rating sample_listing
       = (case l_rating_label sample_listing of
            Some (Some t) \<Rightarrow> (case py_words t of [] \<Rightarrow> None | w # _ \<Rightarrow> py_float w)
          | _ \<Rightarrow> None)"
      by blast
    moreover have "l_rating_label sample_listing = Some (Some ''4.5 stars'')"
      by (simp add: sample_listing_def)
    ultimately show ?thesis
      by (simp only: option.case w list.case f)
  qed
  ultimately show ?thesis using a a2 n by simp
qed

text \<open>
  Nothing checks the range. A detail view whose content says \<open>10 stars\<close> yields a
  record with rating 10, above 5; a card whose rating label is \<open>-3 stars\<close> yields a
  record with rating -3, below 0.
\<close>

theorem rating_out_of_range:
  "map_option rating (extract_business_details plain_detail ''Acme'') = Some (Some (Nearest 10))
   \<and> (5::rat) < 10
   \<and> map_option rating
        (extract_listing (sample_listing\<lparr>l_rating_label := Some (Some ''-3 stars'')\<rparr>))
       = Some (Some (Nearest (- 3)))
   \<and> (- 3::rat) < 0"
proof -
  have "extract_rating (page_content plain_detail) = Some (Nearest 10)"
    by code_simp
  then have "map_option rating (extract_business_details plain_detail ''Acme'')
               = Some (Some (Nearest 10))"
    by (simp add: extract_business_details_def plain_detail_def)
  moreover have "card_rating (sample_listing\<lparr>l_rating_label := Some (Some ''-3 stars'')\<rparr>)
                   = Some (Nearest (- 3))"
    by code_simp
  then have "map_option rating
        (extract_listing (sample_listing\<lparr>l_rating_label := Some (Some ''-3 stars'')\<rparr>))
       = Some (Some (Nearest (- 3)))"
    by (simp add: extract_listing_def sample_listing_def Let_def)
  ultimately show ?thesis by simp
qed

end
